theory Spec2Isabelle
  imports Main "HOL-Library.AList" "HOL-Library.Sublist" "HOL-Library.Monad_Syntax"
begin

section \<open>Data model\<close>

text \<open>
  The script \<^verbatim>\<open>delete_devices.py\<close> works on Python sets of device names and on one
  dictionary from alias names to sets of disk names. A Python set is modelled as a list
  of its elements: the order of the list stands for the order in which Python happens
  to iterate the set, which the language leaves open. The dictionary is an association
  list, read with \<^const>\<open>map_of\<close> and written with \<^const>\<open>AList.update\<close>, so that its keys stay
  unique as those of a dictionary are.
\<close>

type_synonym pyset = "string list"
type_synonym pydict = "(string \<times> pyset) list"

text \<open>\<^verbatim>\<open>s.add(x)\<close>\<close>

definition set_add :: "string \<Rightarrow> pyset \<Rightarrow> pyset" where
  "set_add x s = (if x \<in> set s then s else s @ [x])"

text \<open>\<^verbatim>\<open>s | t\<close> and \<^verbatim>\<open>s |= t\<close>\<close>

definition set_or :: "pyset \<Rightarrow> pyset \<Rightarrow> pyset" where
  "set_or s t = fold set_add t s"

text \<open>\<^verbatim>\<open>s & t\<close>\<close>

definition set_and :: "pyset \<Rightarrow> pyset \<Rightarrow> pyset" where
  "set_and s t = filter (\<lambda>x. x \<in> set t) s"

text \<open>\<^verbatim>\<open>s -= t\<close>\<close>

definition set_sub :: "pyset \<Rightarrow> pyset \<Rightarrow> pyset" where
  "set_sub s t = filter (\<lambda>x. x \<notin> set t) s"

text \<open>\<^verbatim>\<open>sep.join(xs)\<close>\<close>

fun join :: "string \<Rightarrow> string list \<Rightarrow> string" where
  "join sep [] = []"
| "join sep [x] = x"
| "join sep (x # y # ys) = x @ sep @ join sep (y # ys)"

text \<open>The exceptions that leave the functions of the script unhandled.\<close>

datatype error = KeyError string | OSError | ValueError | IOError string | EOFError

section \<open>The resolution phase of \<^verbatim>\<open>delete_devices\<close>\<close>

text \<open>
  The two sets the function mutates, \<^verbatim>\<open>disks\<close> and \<^verbatim>\<open>aliases\<close>, and the lines it has
  printed so far.
\<close>

record resolver_state =
  disks :: pyset
  aliases :: pyset
  out :: "string list"

text \<open>
  The message of lines 148-149. The string literal is continued over a line break with
  a backslash, so the 24 blanks that indent line 149 belong to the message.
\<close>

definition expansion_message :: "string \<Rightarrow> string \<Rightarrow> string" where
  "expansion_message disk alias =
     ''Disk '' @ disk @ '' is a part of the multipath device '' @ alias
       @ ''. Adding the other disks from '' @ alias @ ''.'' @ replicate 24 CHR '' ''"

definition refusal_message :: "pyset \<Rightarrow> string" where
  "refusal_message selected =
     ''Refusing to delete the following protected devices: '' @ join '' '' selected"

definition say :: "bool \<Rightarrow> string \<Rightarrow> string list \<Rightarrow> string list" where
  "say verbose msg printed = (if verbose then printed @ [msg] else printed)"

text \<open>
  Lines 144-151, the inner loop \<^verbatim>\<open>for group in device_groups\<close> for one disk. The loop
  reads \<^verbatim>\<open>device_groups[group]\<close> for each key it iterates, that is, it visits the
  items of the dictionary.
\<close>

fun expand_disk :: "bool \<Rightarrow> string \<Rightarrow> pydict \<Rightarrow> resolver_state \<Rightarrow> resolver_state" where
  "expand_disk verbose disk [] st = st"
| "expand_disk verbose disk ((grp, group_disks) # rest) st =
     (if disk \<in> set group_disks
      then expand_disk verbose disk rest
             (st\<lparr>out := say verbose (expansion_message disk grp) (out st),
                 aliases := set_add grp (aliases st),
                 disks := set_or (disks st) group_disks\<rparr>)
      else expand_disk verbose disk rest st)"

text \<open>Lines 143-151, the outer loop over the snapshot \<^verbatim>\<open>list(disks)\<close>.\<close>

fun expand_disks :: "bool \<Rightarrow> pydict \<Rightarrow> string list \<Rightarrow> resolver_state \<Rightarrow> resolver_state" where
  "expand_disks verbose device_groups [] st = st"
| "expand_disks verbose device_groups (disk # snapshot) st =
     expand_disks verbose device_groups snapshot (expand_disk verbose disk device_groups st)"

text \<open>
  Lines 154-162, the protection check. The refusal line joins the selected names in
  the order of the list that stands for the set; Python joins them in the iteration
  order of the set, which may be another. The same holds of the order of every set
  and of the events that follow it: what the model fixes beyond the code is order
  only, never membership.
\<close>

definition protection_check :: "bool \<Rightarrow> pyset \<Rightarrow> resolver_state \<Rightarrow> resolver_state" where
  "protection_check verbose protected_devices st =
     (let selected_protected_devices =
            set_or (set_and protected_devices (disks st)) (set_and protected_devices (aliases st))
      in if selected_protected_devices \<noteq> []
         then st\<lparr>out := say verbose (refusal_message selected_protected_devices) (out st),
                 aliases := set_sub (aliases st) protected_devices,
                 disks := set_sub (disks st) protected_devices\<rparr>
         else st)"

text \<open>
  Lines 164-165, \<^verbatim>\<open>for alias in aliases: disks |= device_groups[alias]\<close>. The
  subscription raises \<^verbatim>\<open>KeyError\<close> for an alias that is no key of the dictionary.
\<close>

fun materialize :: "pydict \<Rightarrow> string list \<Rightarrow> pyset \<Rightarrow> error + pyset" where
  "materialize device_groups [] ds = Inr ds"
| "materialize device_groups (alias # rest) ds =
     (case map_of device_groups alias of
        None \<Rightarrow> Inl (KeyError alias)
      | Some members \<Rightarrow> materialize device_groups rest (set_or ds members))"

text \<open>
  Lines 143-165 together: what \<^verbatim>\<open>delete_devices\<close> computes from the dictionary of
  groups, the protected set and the request before it acts on any device.
\<close>

definition resolve :: "pydict \<Rightarrow> pyset \<Rightarrow> pyset \<Rightarrow> pyset \<Rightarrow> bool \<Rightarrow> error + resolver_state" where
  "resolve device_groups protected_devices disks0 aliases0 verbose =
     (let st1 = expand_disks verbose device_groups disks0
                  \<lparr>disks = disks0, aliases = aliases0, out = []\<rparr>;
          st2 = protection_check verbose protected_devices st1
      in case materialize device_groups (aliases st2) (disks st2) of
           Inl e \<Rightarrow> Inl e
         | Inr ds \<Rightarrow> Inr (st2\<lparr>disks := ds\<rparr>))"

section \<open>Text of the host queries\<close>

text \<open>
  The script is Python 2: the output of a command is a byte string. \<^verbatim>\<open>str.strip()\<close> and
  the class \<^verbatim>\<open>\s\<close> of the \<^verbatim>\<open>re\<close> module take the six ASCII blanks as white space,
  \<^verbatim>\<open>\d\<close> is a decimal digit and \<^verbatim>\<open>\w\<close> a letter, a digit or the underscore.
\<close>

definition isspace :: "char \<Rightarrow> bool" where
  "isspace c = (c \<in> set [CHR '' '', CHR 0x09, CHR 0x0A, CHR 0x0B, CHR 0x0C, CHR 0x0D])"

definition isdigit :: "char \<Rightarrow> bool" where
  "isdigit c = (c \<in> set ''0123456789'')"

definition isalpha :: "char \<Rightarrow> bool" where
  "isalpha c = (c \<in> set ''abcdefghijklmnopqrstuvwxyzABCDEFGHIJKLMNOPQRSTUVWXYZ'')"

definition isword :: "char \<Rightarrow> bool" where
  "isword c = (isalpha c \<or> isdigit c \<or> c = CHR ''_'')"

text \<open>\<^verbatim>\<open>s.strip()\<close>\<close>

definition strip :: "string \<Rightarrow> string" where
  "strip s = rev (dropWhile isspace (rev (dropWhile isspace s)))"

text \<open>
  \<^verbatim>\<open>s.splitlines()\<close>: a line ends at a line feed, at a carriage return, or at a carriage
  return followed by a line feed; there is no empty last line.
\<close>

fun splitlines_from :: "string \<Rightarrow> string \<Rightarrow> string list" where
  "splitlines_from cur [] = (if cur = [] then [] else [cur])"
| "splitlines_from cur (c # cs) =
     (if c = CHR 0x0A then cur # splitlines_from [] cs
      else if c = CHR 0x0D then
        (case cs of
           [] \<Rightarrow> cur # splitlines_from [] cs
         | d # ds \<Rightarrow> if d = CHR 0x0A then cur # splitlines_from [] ds
                    else cur # splitlines_from [] cs)
      else splitlines_from (cur @ [c]) cs)"

definition splitlines :: "string \<Rightarrow> string list" where
  "splitlines s = splitlines_from [] s"

subsection \<open>The three regular expressions\<close>

text \<open>
  \<^verbatim>\<open>re.match\<close> anchors a pattern at the start of the string. In each of the three
  patterns a greedy repetition is followed by a character outside its class or by the
  end of the pattern, so the longest run is the only one that can match, and matching
  is a left-to-right scan. \<open>many1 P\<close> is such a repetition \<^verbatim>\<open>P+\<close>: the longest run and
  what follows it. \<open>lit w\<close> matches the literal text \<open>w\<close>.
\<close>

definition many1 :: "(char \<Rightarrow> bool) \<Rightarrow> string \<Rightarrow> (string \<times> string) option" where
  "many1 P s = (if takeWhile P s = [] then None else Some (takeWhile P s, dropWhile P s))"

definition skip1 :: "(char \<Rightarrow> bool) \<Rightarrow> string \<Rightarrow> string option" where
  "skip1 P s = map_option snd (many1 P s)"

definition lit :: "string \<Rightarrow> string \<Rightarrow> string option" where
  "lit w s = (if prefix w s then Some (drop (length w) s) else None)"

definition one :: "(char \<Rightarrow> bool) \<Rightarrow> string \<Rightarrow> string option" where
  "one P s = (case s of [] \<Rightarrow> None | c # cs \<Rightarrow> if P c then Some cs else None)"

text \<open>
  Line 30,
  \<^verbatim>\<open>\s+[|`]-\s+\d+:\d+:\d+:\d+\s+(?P<disk>\w+)\s+\d+:\d+\<close>;
  the result is the group \<^verbatim>\<open>disk\<close>.
\<close>

definition re_multipath :: "string \<Rightarrow> string option" where
  "re_multipath line = do {
     r \<leftarrow> skip1 isspace line;
     r \<leftarrow> one (\<lambda>c. c = CHR ''|'' \<or> c = CHR 0x60) r;
     r \<leftarrow> lit ''-'' r;
     r \<leftarrow> skip1 isspace r;
     r \<leftarrow> skip1 isdigit r;
     r \<leftarrow> lit '':'' r;
     r \<leftarrow> skip1 isdigit r;
     r \<leftarrow> lit '':'' r;
     r \<leftarrow> skip1 isdigit r;
     r \<leftarrow> lit '':'' r;
     r \<leftarrow> skip1 isdigit r;
     r \<leftarrow> skip1 isspace r;
     (disk, r) \<leftarrow> many1 isword r;
     r \<leftarrow> skip1 isspace r;
     r \<leftarrow> skip1 isdigit r;
     r \<leftarrow> lit '':'' r;
     r \<leftarrow> skip1 isdigit r;
     Some disk
   }"

text \<open>
  Line 89,
  \<^verbatim>\<open>(/dev/(?!mapper)(?P<disk>[a-zA-Z]+)\d*)|(/dev/mapper/(?P<alias>\w+))\<close>;
  the result is the pair of the groups \<^verbatim>\<open>disk\<close> and \<^verbatim>\<open>alias\<close>, of which the
  alternative that matched sets one. The second alternative is tried when the first
  fails.
\<close>

definition re_mounted :: "string \<Rightarrow> (string option \<times> string option) option" where
  "re_mounted device =
     (case do { r \<leftarrow> lit ''/dev/'' device;
                (disk, r) \<leftarrow> (if prefix ''mapper'' r then None else many1 isalpha r);
                Some disk }
      of Some disk \<Rightarrow> Some (Some disk, None)
       | None \<Rightarrow>
           (case do { r \<leftarrow> lit ''/dev/mapper/'' device;
                      (alias, r) \<leftarrow> many1 isword r;
                      Some alias }
            of Some alias \<Rightarrow> Some (None, Some alias)
             | None \<Rightarrow> None))"

text \<open>Line 117, \<^verbatim>\<open>/dev/(?P<disk>[a-zA-Z]+)\d*\<close>.\<close>

definition re_lvm :: "string \<Rightarrow> string option" where
  "re_lvm disk = do {
     r \<leftarrow> lit ''/dev/'' disk;
     (d, r) \<leftarrow> many1 isalpha r;
     Some d
   }"

section \<open>The function \<^verbatim>\<open>disk_associations\<close>\<close>

text \<open>
  A host answers a command line. \<^verbatim>\<open>subprocess.check_output(shlex.split(cmd))\<close> returns
  the output of the command, raises \<^verbatim>\<open>CalledProcessError\<close> when the command exits
  with a status other than zero, and raises another exception when the command cannot
  be run at all: \<^verbatim>\<open>OSError\<close> when the program is not installed, \<^verbatim>\<open>ValueError\<close> when
  \<^verbatim>\<open>shlex.split\<close> rejects the command line.
\<close>

datatype query_result = Output string | CalledProcessError | Raises error

type_synonym host = "string \<Rightarrow> query_result"

text \<open>
  The pattern of lines 35-40, 51-56, 76-81 and 106-111: the result starts as the empty
  string, and only \<^verbatim>\<open>CalledProcessError\<close> is caught.
\<close>

definition query :: "host \<Rightarrow> string \<Rightarrow> error + string" where
  "query h cmd =
     (case h cmd of
        Output s \<Rightarrow> Inr s
      | CalledProcessError \<Rightarrow> Inr []
      | Raises e \<Rightarrow> Inl e)"

text \<open>
  \<^verbatim>\<open>d[k].add(x)\<close> and \<^verbatim>\<open>d[k] |= t\<close> change the set stored under a key that the
  function has assigned before.
\<close>

definition dict_add :: "string \<Rightarrow> string \<Rightarrow> pydict \<Rightarrow> pydict" where
  "dict_add k x d = AList.map_entry k (set_add x) d"

definition dict_or :: "string \<Rightarrow> pyset \<Rightarrow> pydict \<Rightarrow> pydict" where
  "dict_or k t d = AList.map_entry k (\<lambda>s. set_or s t) d"

text \<open>Lines 66-68, the lines of \<^verbatim>\<open>multipath -ll\<close> for one alias.\<close>

fun add_paths :: "string \<Rightarrow> string list \<Rightarrow> pydict \<Rightarrow> pydict" where
  "add_paths device [] disk_mappings = disk_mappings"
| "add_paths device (line # rest) disk_mappings =
     (case re_multipath line of
        Some disk \<Rightarrow> add_paths device rest (dict_add device disk disk_mappings)
      | None \<Rightarrow> add_paths device rest disk_mappings)"

text \<open>Lines 45-68, the loop over the lines of \<^verbatim>\<open>multipath -l -v 1\<close>.\<close>

fun collect_multipath :: "host \<Rightarrow> string list \<Rightarrow> pydict \<Rightarrow> error + pydict" where
  "collect_multipath h [] disk_mappings = Inr disk_mappings"
| "collect_multipath h (device # rest) disk_mappings =
     (case query h (''multipath -ll '' @ strip device) of
        Inl e \<Rightarrow> Inl e
      | Inr multipath_info \<Rightarrow>
          collect_multipath h rest
            (add_paths (strip device) (splitlines multipath_info)
               (AList.update (strip device) [] disk_mappings)))"

text \<open>Lines 90-101, the loop over the mounted sources.\<close>

fun protect_mounted :: "string list \<Rightarrow> pydict \<Rightarrow> pydict" where
  "protect_mounted [] disk_mappings = disk_mappings"
| "protect_mounted (device # rest) disk_mappings =
     (case re_mounted (strip device) of
        None \<Rightarrow> protect_mounted rest disk_mappings
      | Some (disk_match, alias_match) \<Rightarrow>
          (case disk_match of
             Some disk \<Rightarrow> protect_mounted rest (dict_add ''protected'' disk disk_mappings)
           | None \<Rightarrow>
               (case alias_match of
                  None \<Rightarrow> protect_mounted rest disk_mappings
                | Some alias \<Rightarrow>
                    (let added = dict_add ''protected'' alias disk_mappings
                     in case map_of added alias of
                          Some members \<Rightarrow> protect_mounted rest (dict_or ''protected'' members added)
                        | None \<Rightarrow> protect_mounted rest added))))"

text \<open>Lines 118-121, the loop over the physical volumes.\<close>

fun protect_lvm :: "string list \<Rightarrow> pydict \<Rightarrow> pydict" where
  "protect_lvm [] disk_mappings = disk_mappings"
| "protect_lvm (disk # rest) disk_mappings =
     (case re_lvm (strip disk) of
        Some d \<Rightarrow> protect_lvm rest (dict_add ''protected'' d disk_mappings)
      | None \<Rightarrow> protect_lvm rest disk_mappings)"

definition disk_associations :: "host \<Rightarrow> error + pydict" where
  "disk_associations h =
     (case query h ''multipath -l -v 1'' of
        Inl e \<Rightarrow> Inl e
      | Inr multipath_devices \<Rightarrow>
     (case collect_multipath h (splitlines multipath_devices) [] of
        Inl e \<Rightarrow> Inl e
      | Inr disk_mappings \<Rightarrow>
     (case query h ''findmnt --noheadings --list --type ext2,ext3,ext4,xfs --output SOURCE'' of
        Inl e \<Rightarrow> Inl e
      | Inr mounted_devices \<Rightarrow>
     (case query h ''pvs --noheadings --options pv_name'' of
        Inl e \<Rightarrow> Inl e
      | Inr lvm_disks \<Rightarrow>
          Inr (protect_lvm (splitlines lvm_disks)
                 (protect_mounted (splitlines mounted_devices)
                    (AList.update ''protected'' [] disk_mappings)))))))"

section \<open>Acting on the devices\<close>

text \<open>
  What the script does to the host is recorded as a trace of events: a line printed, a
  command run with \<^verbatim>\<open>subprocess.call\<close>, a text written to a file, a prompt shown by
  \<^verbatim>\<open>raw_input\<close>. \<^verbatim>\<open>subprocess.call\<close> returns the exit status of the command, or raises
  when the command cannot be run. Opening a control file for writing, or writing to it,
  raises \<^verbatim>\<open>IOError\<close> when the kernel refuses; \<open>write_file\<close> tells whether it
  succeeds. \<open>answer\<close> is what the user types at the prompt, \<open>None\<close> when the input is
  closed.
\<close>

datatype event = Print string | Call string | Write string string | Prompt string

datatype call_result = Exit int | CallRaises error

record world =
  run_call :: "string \<Rightarrow> call_result"
  write_file :: "string \<Rightarrow> string \<Rightarrow> bool"
  answer :: "string option"

text \<open>Lines 170-175 (and 195-200), the loop that flushes the aliases.\<close>

fun flush_aliases :: "world \<Rightarrow> string list \<Rightarrow> event list \<Rightarrow> event list \<times> error option" where
  "flush_aliases w [] tr = (tr, None)"
| "flush_aliases w (alias # rest) tr =
     (case run_call w (''multipath -f '' @ alias) of
        CallRaises e \<Rightarrow> (tr @ [Call (''multipath -f '' @ alias)], Some e)
      | Exit exit_code \<Rightarrow>
          flush_aliases w rest
            (tr @ [Call (''multipath -f '' @ alias)]
                @ (if exit_code \<noteq> 0
                   then [Print (''Error: cannot flush multipath device '' @ alias)]
                   else [])))"

text \<open>Lines 178-182 (and 203-207), the loop that takes the disks offline and deletes them.\<close>

fun delete_disks :: "world \<Rightarrow> string list \<Rightarrow> event list \<Rightarrow> event list \<times> error option" where
  "delete_disks w [] tr = (tr, None)"
| "delete_disks w (disk # rest) tr =
     (let state = ''/sys/block/'' @ disk @ ''/device/state'';
          delete = ''/sys/block/'' @ disk @ ''/device/delete''
      in if \<not> write_file w state ''offline\<newline>''
         then (tr @ [Write state ''offline\<newline>''], Some (IOError state))
         else if \<not> write_file w delete ''1\<newline>''
         then (tr @ [Write state ''offline\<newline>'', Write delete ''1\<newline>''],
               Some (IOError delete))
         else delete_disks w rest
                (tr @ [Write state ''offline\<newline>'', Write delete ''1\<newline>'']))"

text \<open>Lines 168-182, which lines 193-207 repeat.\<close>

definition execute :: "world \<Rightarrow> bool \<Rightarrow> pyset \<Rightarrow> pyset \<Rightarrow> event list \<Rightarrow> event list \<times> error option" where
  "execute w verbose aliases_final disks_final tr =
     (case flush_aliases w aliases_final
             (tr @ (if verbose
                    then [Print (''Flushing the following multipath devices: ''
                                   @ join '' '' aliases_final)]
                    else []))
      of (tr1, Some e) \<Rightarrow> (tr1, Some e)
       | (tr1, None) \<Rightarrow>
           delete_disks w disks_final
             (tr1 @ (if verbose
                     then [Print (''Deleting the following disks: '' @ join '' '' disks_final)]
                     else [])))"

text \<open>Lines 185-190, the text of the prompt.\<close>

definition warning_message :: "pyset \<Rightarrow> pyset \<Rightarrow> string" where
  "warning_message aliases_final disks_final =
     ''You have selected the following devices for removal:''
     @ (if aliases_final \<noteq> [] then ''\<newline>'' @ [CHR 0x09] @ ''Aliases: '' @ join '' '' aliases_final
        else [])
     @ (if disks_final \<noteq> [] then ''\<newline>'' @ [CHR 0x09] @ ''Disks: '' @ join '' '' disks_final
        else [])
     @ ''\<newline>Are you sure you want to delete these devices? (y/N) ''"

text \<open>
  The whole of \<^verbatim>\<open>delete_devices\<close>, lines 136-207. \<^verbatim>\<open>pop('protected')\<close> takes the
  protected set out of the dictionary; lines 143-165 are the steps of \<^const>\<open>resolve\<close>,
  written out here so that the lines printed before a \<^verbatim>\<open>KeyError\<close> stay in the trace.
  Without \<^verbatim>\<open>assume_yes\<close> the function asks only when \<^verbatim>\<open>aliases or disks\<close> holds, that
  is, unless both sets are empty.
\<close>

definition delete_devices ::
    "host \<Rightarrow> world \<Rightarrow> pyset \<Rightarrow> pyset \<Rightarrow> bool \<Rightarrow> bool \<Rightarrow> event list \<times> error option" where
  "delete_devices h w disks0 aliases0 assume_yes verbose =
     (case disk_associations h of
        Inl e \<Rightarrow> ([], Some e)
      | Inr device_groups0 \<Rightarrow>
     (case map_of device_groups0 ''protected'' of
        None \<Rightarrow> ([], Some (KeyError ''protected''))
      | Some protected_devices \<Rightarrow>
     (let device_groups = AList.delete ''protected'' device_groups0;
          st1 = expand_disks verbose device_groups disks0
                  \<lparr>disks = disks0, aliases = aliases0, out = []\<rparr>;
          st2 = protection_check verbose protected_devices st1
      in case materialize device_groups (aliases st2) (disks st2) of
           Inl e \<Rightarrow> (map Print (out st2), Some e)
         | Inr disks_final \<Rightarrow>
             if assume_yes
             then execute w verbose (aliases st2) disks_final (map Print (out st2))
             else if aliases st2 = [] \<and> disks_final = []
             then (map Print (out st2), None)
             else (case answer w of
                     None \<Rightarrow>
                       (map Print (out st2) @ [Prompt (warning_message (aliases st2) disks_final)],
                        Some EOFError)
                   | Some response \<Rightarrow>
                       if response = ''y'' \<or> response = ''Y''
                       then execute w verbose (aliases st2) disks_final
                              (map Print (out st2)
                                 @ [Prompt (warning_message (aliases st2) disks_final)])
                       else (map Print (out st2)
                               @ [Prompt (warning_message (aliases st2) disks_final)], None)))))"

text \<open>
  Line 314 of \<^verbatim>\<open>main\<close>, \<^verbatim>\<open>arg in multipath_devices\<close>: the right-hand side is the raw
  output of \<^verbatim>\<open>multipath -l -v 1\<close>, a string, so the test is whether the argument occurs
  in it as a substring.
\<close>

fun occurs_in :: "string \<Rightarrow> string \<Rightarrow> bool" where
  "occurs_in arg [] = (arg = [])"
| "occurs_in arg (c # cs) = (prefix arg (c # cs) \<or> occurs_in arg cs)"

section \<open>Notions of the specification\<close>


text \<open>
  The specification's words for the base device of a partition: the name with its
  numeric suffix stripped.
\<close>

definition strip_numeric_suffix :: "string \<Rightarrow> string" where
  "strip_numeric_suffix name = rev (dropWhile isdigit (rev name))"

section \<open>Example hosts\<close>

text \<open>
  The host of the comments in \<^verbatim>\<open>disk_associations\<close>: two multipath volumes of which
  \<^verbatim>\<open>testvol2\<close> has four paths, a root disk with partitions, \<^verbatim>\<open>testvol2\<close> mounted, and
  two physical volumes.
\<close>

definition sample_host :: host where
  "sample_host cmd =
     (if cmd = ''multipath -l -v 1'' then Output ''testvol1\<newline>testvol2\<newline>''
      else if cmd = ''multipath -ll testvol1'' then
        Output (''testvol1 (36000d31000d5f00000000000000000a5) dm-2 COMPELNT,Compellent Vol\<newline>''
              @ ''  |- 33:0:0:1 sdc 8:32  active ready running\<newline>''
              @ ''  `- 35:0:0:1 sdd 8:48  active ready running\<newline>'')
      else if cmd = ''multipath -ll testvol2'' then
        Output (''testvol2 (36000d31000d5f00000000000000000a6) dm-3 COMPELNT,Compellent Vol\<newline>''
              @ ''  |- 34:0:0:1 sdg 8:96  active ready running\<newline>''
              @ ''  |- 39:0:0:1 sdi 8:128 active ready running\<newline>''
              @ ''  |- 36:0:0:1 sdh 8:112 active ready running\<newline>''
              @ ''  `- 40:0:0:1 sdj 8:144 active ready running\<newline>'')
      else if cmd = ''findmnt --noheadings --list --type ext2,ext3,ext4,xfs --output SOURCE'' then
        Output ''/dev/mapper/vgROOT-lvROOT\<newline>/dev/sda2\<newline>/dev/mapper/testvol2\<newline>''
      else if cmd = ''pvs --noheadings --options pv_name'' then
        Output ''  /dev/sda3\<newline>  /dev/sdb1\<newline>''
      else Raises OSError)"

text \<open>A host whose one multipath volume has a hyphen in its alias and is mounted.\<close>

definition hyphen_host :: host where
  "hyphen_host cmd =
     (if cmd = ''multipath -l -v 1'' then Output ''ora-data1\<newline>''
      else if cmd = ''multipath -ll ora-data1'' then
        Output (''  |- 34:0:0:1 sdg 8:96  active ready running\<newline>''
              @ ''  `- 40:0:0:1 sdh 8:112 active ready running\<newline>'')
      else if cmd = ''findmnt --noheadings --list --type ext2,ext3,ext4,xfs --output SOURCE'' then
        Output ''/dev/mapper/ora-data1\<newline>''
      else if cmd = ''pvs --noheadings --options pv_name'' then CalledProcessError
      else Raises OSError)"

text \<open>A host with no multipath volume and no volume group, booted from an NVMe disk.\<close>

definition nvme_host :: host where
  "nvme_host cmd =
     (if cmd = ''findmnt --noheadings --list --type ext2,ext3,ext4,xfs --output SOURCE'' then
        Output ''/dev/nvme0n1p2\<newline>''
      else CalledProcessError)"


text \<open>A host whose one multipath volume has the alias \<^verbatim>\<open>protected\<close>.\<close>

definition protected_alias_host :: host where
  "protected_alias_host cmd =
     (if cmd = ''multipath -l -v 1'' then Output ''protected\<newline>''
      else if cmd = ''multipath -ll protected'' then
        Output (''  |- 34:0:0:1 sdg 8:96  active ready running\<newline>''
              @ ''  `- 40:0:0:1 sdh 8:112 active ready running\<newline>'')
      else CalledProcessError)"

text \<open>A world in which every command succeeds and every control file takes the write.\<close>

definition willing_world :: world where
  "willing_world = \<lparr>run_call = (\<lambda>cmd. Exit 0), write_file = (\<lambda>path text. True), answer = None\<rparr>"



text \<open>
  A request on a host whose volume \<^verbatim>\<open>testvol1\<close>, with the one path \<^verbatim>\<open>sdb\<close>, is
  mounted: the dictionary of groups, the protected set, and a state of the resolution
  in which the disks \<^verbatim>\<open>sdb\<close> and \<^verbatim>\<open>sdz\<close> and the alias \<^verbatim>\<open>testvol1\<close> are requested.
\<close>

definition testvol1_groups :: pydict where
  "testvol1_groups = [(''testvol1'', [''sdb''])]"

definition testvol1_mounted :: pyset where
  "testvol1_mounted = [''testvol1'', ''sdb'']"

definition mixed_request :: resolver_state where
  "mixed_request = \<lparr>disks = [''sdb'', ''sdz''], aliases = [''testvol1''], out = []\<rparr>"


section \<open>Properties of the set operations\<close>

lemma set_set_add: "set (set_add x s) = insert x (set s)"
  by (auto simp: set_add_def)

lemma set_set_or: "set (set_or s t) = set s \<union> set t"
  unfolding set_or_def
  by (induction t arbitrary: s) (auto simp: set_set_add)

lemma set_set_and: "set (set_and s t) = set s \<inter> set t"
  by (auto simp: set_and_def)

lemma set_set_sub: "set (set_sub s t) = set s - set t"
  by (auto simp: set_sub_def)

section \<open>What the resolution phase computes\<close>

lemma expand_disk_aliases:
  "x \<in> set (aliases (expand_disk v d dg st))
     \<longleftrightarrow> x \<in> set (aliases st) \<or> (\<exists>ms. (x, ms) \<in> set dg \<and> d \<in> set ms)"
proof (induction dg arbitrary: st)
  case Nil
  then show ?case by simp
next
  case (Cons gm dg)
  obtain g ms where gm: "gm = (g, ms)" by (cases gm)
  show ?case unfolding gm by (cases "d \<in> set ms") (auto simp: Cons.IH set_set_add)
qed

lemma expand_disk_disks:
  "x \<in> set (disks (expand_disk v d dg st))
     \<longleftrightarrow> x \<in> set (disks st) \<or> (\<exists>g ms. (g, ms) \<in> set dg \<and> d \<in> set ms \<and> x \<in> set ms)"
proof (induction dg arbitrary: st)
  case Nil
  then show ?case by simp
next
  case (Cons gm dg)
  obtain g ms where gm: "gm = (g, ms)" by (cases gm)
  show ?case unfolding gm by (cases "d \<in> set ms") (auto simp: Cons.IH set_set_or)
qed

lemma expand_disks_aliases:
  "x \<in> set (aliases (expand_disks v dg ds st))
     \<longleftrightarrow> x \<in> set (aliases st) \<or> (\<exists>ms d. (x, ms) \<in> set dg \<and> d \<in> set ds \<and> d \<in> set ms)"
proof (induction ds arbitrary: st)
  case Nil
  then show ?case by simp
next
  case (Cons d ds)
  show ?case unfolding expand_disks.simps Cons.IH expand_disk_aliases by (simp, blast)
qed

lemma expand_disks_disks:
  "x \<in> set (disks (expand_disks v dg ds st))
     \<longleftrightarrow> x \<in> set (disks st)
          \<or> (\<exists>g ms d. (g, ms) \<in> set dg \<and> d \<in> set ds \<and> d \<in> set ms \<and> x \<in> set ms)"
proof (induction ds arbitrary: st)
  case Nil
  then show ?case by simp
next
  case (Cons d ds)
  show ?case unfolding expand_disks.simps Cons.IH expand_disk_disks by (simp, blast)
qed

lemma protection_check_aliases:
  "set (aliases (protection_check v p st)) = set (aliases st) - set p"
proof (cases "set_or (set_and p (disks st)) (set_and p (aliases st)) = []")
  case True
  then have "set (set_or (set_and p (disks st)) (set_and p (aliases st))) = {}" by simp
  then have "set p \<inter> set (aliases st) = {}" by (simp add: set_set_or set_set_and)
  with True show ?thesis by (auto simp: protection_check_def)
next
  case False
  then show ?thesis by (simp add: protection_check_def Let_def set_set_sub)
qed

lemma protection_check_disks:
  "set (disks (protection_check v p st)) = set (disks st) - set p"
proof (cases "set_or (set_and p (disks st)) (set_and p (aliases st)) = []")
  case True
  then have "set (set_or (set_and p (disks st)) (set_and p (aliases st))) = {}" by simp
  then have "set p \<inter> set (disks st) = {}" by (simp add: set_set_or set_set_and)
  with True show ?thesis by (auto simp: protection_check_def)
next
  case False
  then show ?thesis by (simp add: protection_check_def Let_def set_set_sub)
qed

lemma materialize_Inr_set:
  "materialize dg as ds = Inr ds'
     \<Longrightarrow> x \<in> set ds' \<longleftrightarrow> x \<in> set ds \<or> (\<exists>a ms. a \<in> set as \<and> map_of dg a = Some ms \<and> x \<in> set ms)"
proof (induction as arbitrary: ds)
  case Nil
  then show ?case by simp
next
  case (Cons a as)
  then show ?case by (auto split: option.splits simp: set_set_or)
qed

lemma materialize_returns_iff:
  "(\<exists>ds'. materialize dg as ds = Inr ds') \<longleftrightarrow> set as \<subseteq> dom (map_of dg)"
  by (induction as arbitrary: ds) (auto split: option.splits)

lemma materialize_Inl:
  "materialize dg as ds = Inl e \<Longrightarrow> \<exists>a \<in> set as. e = KeyError a \<and> map_of dg a = None"
  by (induction as arbitrary: ds) (auto split: option.splits)


lemma pulled_alias_is_key:
  "(x, ms) \<in> set dg \<Longrightarrow> x \<in> dom (map_of dg)"
  by (simp add: dom_map_of_conv_image_fst rev_image_eqI)

lemma resolve_Inr_aliases:
  assumes "resolve dg p ds as v = Inr st"
  shows "x \<in> set (aliases st)
           \<longleftrightarrow> (x \<in> set as \<or> (\<exists>ms d. (x, ms) \<in> set dg \<and> d \<in> set ds \<and> d \<in> set ms)) \<and> x \<notin> set p"
  using assms
  by (auto simp: resolve_def Let_def protection_check_aliases expand_disks_aliases
      split: sum.splits)

lemma resolve_Inr_disks:
  assumes "resolve dg p ds as v = Inr st"
  shows "x \<in> set (disks st)
           \<longleftrightarrow> (x \<in> set ds \<or> (\<exists>g ms d. (g, ms) \<in> set dg \<and> d \<in> set ds \<and> d \<in> set ms \<and> x \<in> set ms))
                  \<and> x \<notin> set p
               \<or> (\<exists>a ms. a \<in> set (aliases st) \<and> map_of dg a = Some ms \<and> x \<in> set ms)"
proof -
  let ?st1 = "expand_disks v dg ds \<lparr>disks = ds, aliases = as, out = []\<rparr>"
  let ?st2 = "protection_check v p ?st1"
  from assms obtain ds' where m: "materialize dg (aliases ?st2) (disks ?st2) = Inr ds'"
    and st: "st = ?st2\<lparr>disks := ds'\<rparr>"
    by (auto simp: resolve_def Let_def split: sum.splits)
  have "x \<in> set ds' \<longleftrightarrow> x \<in> set (disks ?st2)
          \<or> (\<exists>a ms. a \<in> set (aliases ?st2) \<and> map_of dg a = Some ms \<and> x \<in> set ms)"
    by (rule materialize_Inr_set [OF m])
  then show ?thesis
    by (simp add: st protection_check_disks expand_disks_disks)
qed

lemma resolve_returns_iff:
  "(\<exists>st. resolve dg p ds as v = Inr st) \<longleftrightarrow> set as - set p \<subseteq> dom (map_of dg)"
proof -
  let ?st1 = "expand_disks v dg ds \<lparr>disks = ds, aliases = as, out = []\<rparr>"
  let ?st2 = "protection_check v p ?st1"
  have "(\<exists>st. resolve dg p ds as v = Inr st)
          \<longleftrightarrow> (\<exists>ds'. materialize dg (aliases ?st2) (disks ?st2) = Inr ds')"
    by (auto simp: resolve_def Let_def split: sum.splits)
  also have "\<dots> \<longleftrightarrow> set (aliases ?st2) \<subseteq> dom (map_of dg)"
    by (rule materialize_returns_iff)
  also have "\<dots> \<longleftrightarrow> set as - set p \<subseteq> dom (map_of dg)"
  proof -
    let ?pulled = "{x. \<exists>ms d. (x, ms) \<in> set dg \<and> d \<in> set ds \<and> d \<in> set ms}"
    have eq: "set (aliases ?st2) = (set as \<union> ?pulled) - set p"
      by (auto simp: protection_check_aliases expand_disks_aliases)
    have sub: "?pulled \<subseteq> dom (map_of dg)"
    proof
      fix x assume "x \<in> ?pulled"
      then obtain ms where "(x, ms) \<in> set dg" by blast
      then show "x \<in> dom (map_of dg)" by (rule pulled_alias_is_key)
    qed
    show ?thesis unfolding eq using sub by blast
  qed
  finally show ?thesis .
qed

lemma resolve_Inl:
  assumes "resolve dg p ds as v = Inl e"
  shows "\<exists>a. e = KeyError a \<and> a \<in> set as \<and> a \<notin> set p \<and> map_of dg a = None"
proof -
  let ?st1 = "expand_disks v dg ds \<lparr>disks = ds, aliases = as, out = []\<rparr>"
  let ?st2 = "protection_check v p ?st1"
  from assms have "materialize dg (aliases ?st2) (disks ?st2) = Inl e"
    by (auto simp: resolve_def Let_def split: sum.splits)
  then obtain a where a: "a \<in> set (aliases ?st2)" "e = KeyError a" "map_of dg a = None"
    using materialize_Inl by blast
  from a(1) have np: "a \<notin> set p" and "a \<in> set as \<or> (\<exists>ms. (a, ms) \<in> set dg)"
    by (auto simp: protection_check_aliases expand_disks_aliases)
  moreover have "\<not> (\<exists>ms. (a, ms) \<in> set dg)"
  proof
    assume "\<exists>ms. (a, ms) \<in> set dg"
    then obtain ms where "(a, ms) \<in> set dg" ..
    then have "a \<in> dom (map_of dg)" by (rule pulled_alias_is_key)
    with a(3) show False by auto
  qed
  ultimately have "a \<in> set as" by blast
  with a np show ?thesis by blast
qed

text \<open>
  What does hold of the protected set: the final alias set never has a protected name,
  and a protected disk in the final disk set is a member of an alias of the final
  alias set, put there by the loop of lines 164-165.
\<close>

lemma resolve_aliases_unprotected:
  assumes "resolve dg p ds as v = Inr st"
  shows "set (aliases st) \<inter> set p = {}"
proof -
  have "x \<notin> set p" if "x \<in> set (aliases st)" for x
    using that unfolding resolve_Inr_aliases [OF assms] by simp
  then show ?thesis by blast
qed

lemma resolve_disks_protected_only_by_materialization:
  assumes "resolve dg p ds as v = Inr st" and "x \<in> set (disks st)" and "x \<in> set p"
  shows "\<exists>a ms. a \<in> set (aliases st) \<and> map_of dg a = Some ms \<and> x \<in> set ms"
  using assms(2,3) unfolding resolve_Inr_disks [OF assms(1)] by blast

text \<open>
  The text of a joined list, and the line that the protection check prints. The names
  of the line are those of the intersection, each once; the order in which Python
  joins a set is its own, so the line is described for some list of these names.
\<close>

lemma join_concat:
  "xs \<noteq> [] \<Longrightarrow> join sep xs = concat (map (\<lambda>x. x @ sep) (butlast xs)) @ last xs"
  by (induction sep xs rule: join.induct) auto

lemma join_occurs:
  "x \<in> set xs \<Longrightarrow> \<exists>pre post. join sep xs = pre @ x @ post"
proof (induction sep xs rule: join.induct)
  case (1 sep)
  then show ?case by simp
next
  case (2 sep y)
  then have "join sep [y] = [] @ x @ []" by simp
  then show ?case by blast
next
  case (3 sep y z zs)
  show ?case
  proof (cases "x = y")
    case True
    then have "join sep (y # z # zs) = [] @ x @ (sep @ join sep (z # zs))" by simp
    then show ?thesis by blast
  next
    case False
    with "3.prems" have "x \<in> set (z # zs)" by simp
    from "3.IH" [OF this] obtain pre post where "join sep (z # zs) = pre @ x @ post" by blast
    then have "join sep (y # z # zs) = (y @ sep @ pre) @ x @ post" by simp
    then show ?thesis by blast
  qed
qed

lemma distinct_set_add: "distinct s \<Longrightarrow> distinct (set_add x s)"
  by (simp add: set_add_def)

lemma distinct_set_or: "distinct s \<Longrightarrow> distinct (set_or s t)"
  unfolding set_or_def
  by (induction t arbitrary: s) (simp_all add: distinct_set_add)

lemma distinct_set_and: "distinct s \<Longrightarrow> distinct (set_and s t)"
  by (simp add: set_and_def)

lemma protection_check_warning:
  assumes "b \<in> set p" and "b \<in> set (disks st) \<or> b \<in> set (aliases st)"
  shows "\<exists>names. set names = set p \<inter> (set (disks st) \<union> set (aliases st))
           \<and> names \<noteq> [] \<and> b \<in> set names \<and> (distinct p \<longrightarrow> distinct names)
           \<and> out (protection_check True p st)
               = out st @ [''Refusing to delete the following protected devices: ''
                             @ concat (map (\<lambda>n. n @ '' '') (butlast names)) @ last names]
           \<and> (\<forall>n\<in>set names. \<exists>pre post.
                 ''Refusing to delete the following protected devices: ''
                   @ concat (map (\<lambda>n. n @ '' '') (butlast names)) @ last names
                 = pre @ n @ post)"
proof -
  let ?names = "set_or (set_and p (disks st)) (set_and p (aliases st))"
  have s: "set ?names = set p \<inter> (set (disks st) \<union> set (aliases st))"
    by (auto simp: set_set_or set_set_and)
  with assms have b: "b \<in> set ?names" by blast
  then have ne: "?names \<noteq> []" by auto
  have d: "distinct p \<longrightarrow> distinct ?names"
    by (simp add: distinct_set_or distinct_set_and)
  have j: "join '' '' ?names = concat (map (\<lambda>n. n @ '' '') (butlast ?names)) @ last ?names"
    using ne by (rule join_concat)
  have o: "out (protection_check True p st)
             = out st @ [''Refusing to delete the following protected devices: ''
                           @ concat (map (\<lambda>n. n @ '' '') (butlast ?names)) @ last ?names]"
    using ne unfolding j [symmetric]
    by (simp add: protection_check_def Let_def say_def refusal_message_def)
  have occ: "\<forall>n\<in>set ?names. \<exists>pre post.
                 ''Refusing to delete the following protected devices: ''
                   @ concat (map (\<lambda>n. n @ '' '') (butlast ?names)) @ last ?names
                 = pre @ n @ post"
  proof
    fix n assume "n \<in> set ?names"
    from join_occurs [OF this, of "'' ''"] obtain pre post where
      "join '' '' ?names = pre @ n @ post" by blast
    then have "''Refusing to delete the following protected devices: ''
                   @ concat (map (\<lambda>n. n @ '' '') (butlast ?names)) @ last ?names
        = (''Refusing to delete the following protected devices: '' @ pre) @ n @ post"
      unfolding j [symmetric] by simp
    then show "\<exists>pre post. ''Refusing to delete the following protected devices: ''
                   @ concat (map (\<lambda>n. n @ '' '') (butlast ?names)) @ last ?names
                 = pre @ n @ post" by blast
  qed
  from s ne b d o occ show ?thesis by blast
qed

section \<open>The protection invariant\<close>

text \<open>
  C1. The claim is that no device of the protected set is ever in the final disk set or
  the final alias set. The code filters the protected devices out at lines 161-162 and
  only then, at lines 164-165, adds the members of every remaining alias: a protected
  disk that belongs to an unprotected alias comes back. Here \<^verbatim>\<open>sdg\<close> is protected,
  \<^verbatim>\<open>testvol2\<close> has the paths \<^verbatim>\<open>sdg\<close> and \<^verbatim>\<open>sdh\<close>, and \<^verbatim>\<open>sdh\<close> is requested; the
  final disk set contains \<^verbatim>\<open>sdg\<close>.
\<close>

theorem resolve_returns_protected_disk:
  "resolve [(''testvol2'', [''sdg'', ''sdh''])] [''sdg''] [''sdh''] [] False
     = Inr \<lparr>disks = [''sdh'', ''sdg''], aliases = [''testvol2''], out = []\<rparr>
   \<and> ''sdg'' \<in> set [''sdg'']"
  by (simp add: resolve_def protection_check_def set_or_def set_add_def set_and_def
      set_sub_def say_def)

section \<open>The protection check\<close>

text \<open>
  The intersection of the protected set with a request that names one protected alias
  and no disk is that alias alone.
\<close>

lemma fold_set_add_same: "\<forall>x\<in>set xs. x = a \<Longrightarrow> fold set_add xs [a] = [a]"
  by (induction xs) (auto simp: set_add_def)

lemma selected_single:
  assumes "a \<in> set p"
  shows "set_or (set_and p []) (set_and p [a]) = [a]"
proof -
  let ?f = "filter (\<lambda>x. x = a) p"
  from assms have "?f \<noteq> []" by (simp add: filter_empty_conv)
  then obtain y ys where f: "?f = y # ys" by (cases ?f) simp_all
  have "set ?f \<subseteq> {a}" by auto
  then have y: "y = a" and ys: "\<forall>x\<in>set ys. x = a" unfolding f by auto
  have "set_or (set_and p []) (set_and p [a]) = fold set_add ?f []"
    by (simp add: set_or_def set_and_def)
  also have "\<dots> = fold set_add ys (set_add a [])" unfolding f y by simp
  also have "\<dots> = fold set_add ys [a]" by (simp add: set_add_def)
  also have "\<dots> = [a]" by (rule fold_set_add_same [OF ys])
  finally show ?thesis .
qed

section \<open>Sibling expansion\<close>

text \<open>
  C2. Requesting one disk \<open>D\<close> that is a member of alias \<open>A\<close>, and no alias: when neither
  \<open>A\<close> nor any member of \<open>A\<close> is in the protected set, the resolution returns, the final
  disk set holds every member of \<open>A\<close>, and \<open>A\<close> is in the final alias set. The claim
  states this for every protected set; the protection check of lines 154-162 removes
  what is protected, so the hypothesis on the protected set is needed.
\<close>

theorem sibling_expansion_complete:
  assumes "map_of device_groups A = Some ms" and "D \<in> set ms"
    and "A \<notin> set protected_devices" and "set ms \<inter> set protected_devices = {}"
  shows "\<exists>st. resolve device_groups protected_devices [D] [] verbose = Inr st
           \<and> set ms \<subseteq> set (disks st) \<and> A \<in> set (aliases st)"
proof -
  have "\<exists>st. resolve device_groups protected_devices [D] [] verbose = Inr st"
    unfolding resolve_returns_iff by simp
  then obtain st where st: "resolve device_groups protected_devices [D] [] verbose = Inr st" ..
  from assms(1) have mem: "(A, ms) \<in> set device_groups" by (rule map_of_SomeD)
  with assms(2,3) have A: "A \<in> set (aliases st)"
    unfolding resolve_Inr_aliases [OF st] by auto
  have "set ms \<subseteq> set (disks st)"
  proof
    fix x assume "x \<in> set ms"
    with A assms(1) show "x \<in> set (disks st)"
      unfolding resolve_Inr_disks [OF st] by blast
  qed
  with st A show ?thesis by blast
qed

text \<open>
  The scenario of the specification: \<^verbatim>\<open>sdg\<close> belongs to \<^verbatim>\<open>testvol2\<close>, whose four
  paths are unprotected.
\<close>

theorem sibling_expansion_complete_witness:
  "\<exists>st. resolve [(''testvol2'', [''sdg'', ''sdh'', ''sdi'', ''sdj''])] [''sda''] [''sdg''] [] False
          = Inr st
       \<and> set [''sdg'', ''sdh'', ''sdi'', ''sdj''] \<subseteq> set (disks st)
       \<and> ''testvol2'' \<in> set (aliases st)"
  using sibling_expansion_complete
    [of "[(''testvol2'', [''sdg'', ''sdh'', ''sdi'', ''sdj''])]" "''testvol2''"
        "[''sdg'', ''sdh'', ''sdi'', ''sdj'']" "''sdg''" "[''sda'']" False]
  by simp

text \<open>
  The claim as it is stated fails when the alias is protected, as a mounted multipath
  volume is: \<^verbatim>\<open>sdb\<close> is a member of \<^verbatim>\<open>testvol1\<close>, it is requested alone, and both
  final sets are empty.
\<close>

theorem sibling_expansion_blocked_by_protection:
  "map_of [(''testvol1'', [''sdb'', ''sdc''])] ''testvol1'' = Some [''sdb'', ''sdc'']
   \<and> ''sdb'' \<in> set [''sdb'', ''sdc'']
   \<and> resolve [(''testvol1'', [''sdb'', ''sdc''])] [''testvol1'', ''sdb'', ''sdc''] [''sdb''] [] False
       = Inr \<lparr>disks = [], aliases = [], out = []\<rparr>"
  by (simp add: resolve_def protection_check_def set_or_def set_add_def set_and_def
      set_sub_def say_def)

text \<open>
  C3. When an identifier \<open>b\<close> of the protected set is among the requested disks or
  aliases, the protection check removes it from both sets and keeps every unprotected
  identifier. When verbose it prints one more line: the words of line 157 followed by
  the names of the intersection of the protected set with the request, separated by
  blanks, for some list \<open>names\<close> of exactly these names (each once), so that every
  blocked name occurs in the line; when not verbose it prints nothing. A request for
  one protected alias \<open>a\<close> and no disk returns empty final sets and the warning that
  names \<open>a\<close>. And the resolution goes on with the remainder: when every requested
  alias that is not protected is a key of the dictionary it returns, every requested
  disk and alias that is not protected is in the final sets, \<open>b\<close> is not in the final
  alias set, and when verbose the warning line is among the lines printed.
\<close>

theorem protected_request_dropped_with_warning:
  "(b \<in> set protected_devices \<and> (b \<in> set (disks st) \<or> b \<in> set (aliases st)) \<longrightarrow>
      b \<notin> set (disks (protection_check verbose protected_devices st))
      \<and> b \<notin> set (aliases (protection_check verbose protected_devices st))
      \<and> set (disks (protection_check verbose protected_devices st))
          = set (disks st) - set protected_devices
      \<and> set (aliases (protection_check verbose protected_devices st))
          = set (aliases st) - set protected_devices
      \<and> (\<exists>names. set names = set protected_devices \<inter> (set (disks st) \<union> set (aliases st))
             \<and> names \<noteq> [] \<and> b \<in> set names
             \<and> (distinct protected_devices \<longrightarrow> distinct names)
             \<and> out (protection_check True protected_devices st)
                 = out st @ [''Refusing to delete the following protected devices: ''
                             @ concat (map (\<lambda>n. n @ '' '') (butlast names)) @ last names]
             \<and> (\<forall>n\<in>set names. \<exists>pre post.
                   ''Refusing to delete the following protected devices: ''
                     @ concat (map (\<lambda>n. n @ '' '') (butlast names)) @ last names
                   = pre @ n @ post))
      \<and> out (protection_check False protected_devices st) = out st)
   \<and> (a \<in> set protected_devices \<longrightarrow>
        resolve device_groups protected_devices [] [a] True
          = Inr \<lparr>disks = [], aliases = [],
                 out = [''Refusing to delete the following protected devices: '' @ a]\<rparr>)
   \<and> (b \<in> set protected_devices \<and> (b \<in> set disks0 \<or> b \<in> set aliases0)
        \<and> set aliases0 - set protected_devices \<subseteq> dom (map_of device_groups) \<longrightarrow>
        (\<exists>st' names. resolve device_groups protected_devices disks0 aliases0 verbose = Inr st'
           \<and> b \<notin> set (aliases st')
           \<and> (\<forall>x\<in>set disks0. x \<notin> set protected_devices \<longrightarrow> x \<in> set (disks st'))
           \<and> (\<forall>x\<in>set aliases0. x \<notin> set protected_devices \<longrightarrow> x \<in> set (aliases st'))
           \<and> set names
               = set protected_devices
                 \<inter> (set (disks (expand_disks verbose device_groups disks0
                                  \<lparr>disks = disks0, aliases = aliases0, out = []\<rparr>))
                    \<union> set (aliases (expand_disks verbose device_groups disks0
                                       \<lparr>disks = disks0, aliases = aliases0, out = []\<rparr>)))
           \<and> b \<in> set names
           \<and> (verbose \<longrightarrow>
                 ''Refusing to delete the following protected devices: ''
                   @ concat (map (\<lambda>n. n @ '' '') (butlast names)) @ last names
                 \<in> set (out st'))))"
proof (intro conjI impI)
  assume a: "a \<in> set protected_devices"
  have sel: "set_or (set_and protected_devices []) (set_and protected_devices [a]) = [a]"
    by (rule selected_single [OF a])
  show "resolve device_groups protected_devices [] [a] True
          = Inr \<lparr>disks = [], aliases = [],
                 out = [''Refusing to delete the following protected devices: '' @ a]\<rparr>"
    using a
    by (simp add: resolve_def protection_check_def sel say_def refusal_message_def
        set_sub_def)
next
  assume b: "b \<in> set protected_devices \<and> (b \<in> set (disks st) \<or> b \<in> set (aliases st))"
  then have b1: "b \<in> set protected_devices" and b2: "b \<in> set (disks st) \<or> b \<in> set (aliases st)"
    by simp_all
  let ?sel = "set_or (set_and protected_devices (disks st)) (set_and protected_devices (aliases st))"
  from b have bsel: "b \<in> set ?sel" by (auto simp: set_set_or set_set_and)
  then have ne: "?sel \<noteq> []" by auto
  from b show "b \<notin> set (disks (protection_check verbose protected_devices st))"
    by (simp add: protection_check_disks)
  from b show "b \<notin> set (aliases (protection_check verbose protected_devices st))"
    by (simp add: protection_check_aliases)
  show "set (disks (protection_check verbose protected_devices st))
          = set (disks st) - set protected_devices"
    by (rule protection_check_disks)
  show "set (aliases (protection_check verbose protected_devices st))
          = set (aliases st) - set protected_devices"
    by (rule protection_check_aliases)
  show "\<exists>names. set names = set protected_devices \<inter> (set (disks st) \<union> set (aliases st))
             \<and> names \<noteq> [] \<and> b \<in> set names
             \<and> (distinct protected_devices \<longrightarrow> distinct names)
             \<and> out (protection_check True protected_devices st)
                 = out st @ [''Refusing to delete the following protected devices: ''
                             @ concat (map (\<lambda>n. n @ '' '') (butlast names)) @ last names]
             \<and> (\<forall>n\<in>set names. \<exists>pre post.
                   ''Refusing to delete the following protected devices: ''
                             @ concat (map (\<lambda>n. n @ '' '') (butlast names)) @ last names
                   = pre @ n @ post)"
    by (rule protection_check_warning [OF b1 b2])
  from ne show "out (protection_check False protected_devices st) = out st"
    by (simp add: protection_check_def Let_def say_def)
next
  assume h: "b \<in> set protected_devices \<and> (b \<in> set disks0 \<or> b \<in> set aliases0)
        \<and> set aliases0 - set protected_devices \<subseteq> dom (map_of device_groups)"
  then have b1: "b \<in> set protected_devices" and b2: "b \<in> set disks0 \<or> b \<in> set aliases0"
    and k: "set aliases0 - set protected_devices \<subseteq> dom (map_of device_groups)"
    by simp_all
  let ?st1 = "expand_disks verbose device_groups disks0
                \<lparr>disks = disks0, aliases = aliases0, out = []\<rparr>"
  let ?st2 = "protection_check verbose protected_devices ?st1"
  from k have "\<exists>st'. resolve device_groups protected_devices disks0 aliases0 verbose = Inr st'"
    unfolding resolve_returns_iff .
  then obtain st' where r: "resolve device_groups protected_devices disks0 aliases0 verbose = Inr st'" ..
  then have o: "out st' = out ?st2"
    by (auto simp: resolve_def Let_def split: sum.splits)
  from b2 have b3: "b \<in> set (disks ?st1) \<or> b \<in> set (aliases ?st1)"
    by (auto simp: expand_disks_disks expand_disks_aliases)
  from protection_check_warning [OF b1 b3] obtain names where
    n: "set names = set protected_devices \<inter> (set (disks ?st1) \<union> set (aliases ?st1))"
       "b \<in> set names"
       "out (protection_check True protected_devices ?st1)
          = out ?st1 @ [''Refusing to delete the following protected devices: ''
                             @ concat (map (\<lambda>n. n @ '' '') (butlast names)) @ last names]"
    by blast
  have 1: "b \<notin> set (aliases st')" using b1 unfolding resolve_Inr_aliases [OF r] by simp
  have 2: "\<forall>x\<in>set disks0. x \<notin> set protected_devices \<longrightarrow> x \<in> set (disks st')"
    unfolding resolve_Inr_disks [OF r] by blast
  have 3: "\<forall>x\<in>set aliases0. x \<notin> set protected_devices \<longrightarrow> x \<in> set (aliases st')"
    unfolding resolve_Inr_aliases [OF r] by blast
  from n(1) have 4: "set names \<subseteq> set protected_devices" by blast
  have 5: "verbose \<longrightarrow>
                 ''Refusing to delete the following protected devices: ''
                             @ concat (map (\<lambda>n. n @ '' '') (butlast names)) @ last names
                 \<in> set (out st')"
  proof
    assume verbose
    then have "verbose = True" by simp
    with n(3) o show "''Refusing to delete the following protected devices: ''
                             @ concat (map (\<lambda>n. n @ '' '') (butlast names)) @ last names
                 \<in> set (out st')" by simp
  qed
  from r 1 2 3 n(1) n(2) 5 show "\<exists>st' names. resolve device_groups protected_devices disks0 aliases0 verbose = Inr st'
           \<and> b \<notin> set (aliases st')
           \<and> (\<forall>x\<in>set disks0. x \<notin> set protected_devices \<longrightarrow> x \<in> set (disks st'))
           \<and> (\<forall>x\<in>set aliases0. x \<notin> set protected_devices \<longrightarrow> x \<in> set (aliases st'))
           \<and> set names
               = set protected_devices
                 \<inter> (set (disks (expand_disks verbose device_groups disks0
                                  \<lparr>disks = disks0, aliases = aliases0, out = []\<rparr>))
                    \<union> set (aliases (expand_disks verbose device_groups disks0
                                       \<lparr>disks = disks0, aliases = aliases0, out = []\<rparr>)))
           \<and> b \<in> set names
           \<and> (verbose \<longrightarrow>
                 ''Refusing to delete the following protected devices: ''
                   @ concat (map (\<lambda>n. n @ '' '') (butlast names)) @ last names
                 \<in> set (out st'))" by blast
qed

text \<open>
  The request of the disks \<^verbatim>\<open>sdb\<close> and \<^verbatim>\<open>sdz\<close> where \<^verbatim>\<open>testvol1\<close> and its path
  \<^verbatim>\<open>sdb\<close> are protected: two names are blocked, \<^verbatim>\<open>sdz\<close> is left.
\<close>

theorem protected_request_dropped_with_warning_witness:
  "(''sdb'' \<in> set testvol1_mounted \<and> (''sdb'' \<in> set (disks mixed_request) \<or> ''sdb'' \<in> set (aliases mixed_request)))
   \<and> (''sdb'' \<notin> set (disks (protection_check True testvol1_mounted mixed_request))
      \<and> ''sdb'' \<notin> set (aliases (protection_check True testvol1_mounted mixed_request))
      \<and> set (disks (protection_check True testvol1_mounted mixed_request))
          = set (disks mixed_request) - set testvol1_mounted
      \<and> set (aliases (protection_check True testvol1_mounted mixed_request))
          = set (aliases mixed_request) - set testvol1_mounted
      \<and> (\<exists>names. set names = set testvol1_mounted \<inter> (set (disks mixed_request) \<union> set (aliases mixed_request))
             \<and> names \<noteq> [] \<and> ''sdb'' \<in> set names
             \<and> (distinct testvol1_mounted \<longrightarrow> distinct names)
             \<and> out (protection_check True testvol1_mounted mixed_request)
                 = out mixed_request @ [''Refusing to delete the following protected devices: ''
                             @ concat (map (\<lambda>n. n @ '' '') (butlast names)) @ last names]
             \<and> (\<forall>n\<in>set names. \<exists>pre post.
                   ''Refusing to delete the following protected devices: ''
                     @ concat (map (\<lambda>n. n @ '' '') (butlast names)) @ last names
                   = pre @ n @ post))
      \<and> out (protection_check False testvol1_mounted mixed_request) = out mixed_request)
   \<and> ''testvol1'' \<in> set testvol1_mounted
   \<and> resolve testvol1_groups testvol1_mounted [] [''testvol1''] True
          = Inr \<lparr>disks = [], aliases = [],
                 out = [''Refusing to delete the following protected devices: '' @ ''testvol1'']\<rparr>
   \<and> (''sdb'' \<in> set testvol1_mounted \<and> (''sdb'' \<in> set [''sdb'', ''sdz''] \<or> ''sdb'' \<in> set [])
        \<and> set [] - set testvol1_mounted \<subseteq> dom (map_of testvol1_groups))
   \<and> (\<exists>st' names. resolve testvol1_groups testvol1_mounted [''sdb'', ''sdz''] [] True = Inr st'
           \<and> ''sdb'' \<notin> set (aliases st')
           \<and> (\<forall>x\<in>set [''sdb'', ''sdz'']. x \<notin> set testvol1_mounted \<longrightarrow> x \<in> set (disks st'))
           \<and> (\<forall>x\<in>set []. x \<notin> set testvol1_mounted \<longrightarrow> x \<in> set (aliases st'))
           \<and> set names
               = set testvol1_mounted
                 \<inter> (set (disks (expand_disks True testvol1_groups [''sdb'', ''sdz'']
                                  \<lparr>disks = [''sdb'', ''sdz''], aliases = [], out = []\<rparr>))
                    \<union> set (aliases (expand_disks True testvol1_groups [''sdb'', ''sdz'']
                                       \<lparr>disks = [''sdb'', ''sdz''], aliases = [], out = []\<rparr>)))
           \<and> ''sdb'' \<in> set names
           \<and> (True \<longrightarrow>
                 ''Refusing to delete the following protected devices: ''
                   @ concat (map (\<lambda>n. n @ '' '') (butlast names)) @ last names
                 \<in> set (out st')))
   \<and> set (disks (protection_check True testvol1_mounted mixed_request)) = {''sdz''}
   \<and> set (aliases (protection_check True testvol1_mounted mixed_request)) = {}"
proof -
  note t = protected_request_dropped_with_warning
    [of "''sdb''" "testvol1_mounted"
        "mixed_request" True
        "''testvol1''" "testvol1_groups" "[''sdb'', ''sdz'']" "[]"]
  have h1: "''sdb'' \<in> set testvol1_mounted \<and> (''sdb'' \<in> set (disks mixed_request) \<or> ''sdb'' \<in> set (aliases mixed_request))"
    by (simp add: testvol1_mounted_def mixed_request_def)
  have h2: "''testvol1'' \<in> set testvol1_mounted"
    by (simp add: testvol1_mounted_def)
  have h3: "''sdb'' \<in> set testvol1_mounted \<and> (''sdb'' \<in> set [''sdb'', ''sdz''] \<or> ''sdb'' \<in> set [])
        \<and> set [] - set testvol1_mounted \<subseteq> dom (map_of testvol1_groups)"
    by (simp add: testvol1_mounted_def)
  note c1 = mp [OF conjunct1 [OF t] h1]
  note c2 = mp [OF conjunct1 [OF conjunct2 [OF t]] h2]
  note c3 = mp [OF conjunct2 [OF conjunct2 [OF t]] h3]
  from c1 have e1: "set (disks (protection_check True testvol1_mounted mixed_request)) = {''sdz''}"
    by (simp add: testvol1_mounted_def mixed_request_def)
  from c1 have e2: "set (aliases (protection_check True testvol1_mounted mixed_request)) = {}"
    by (simp add: testvol1_mounted_def mixed_request_def)
  show ?thesis
    by (rule conjI [OF h1 conjI [OF c1 conjI [OF h2 conjI [OF c2 conjI [OF h3
          conjI [OF c3 conjI [OF e1 e2]]]]]]])
qed

section \<open>Alias-to-member materialization\<close>

text \<open>
  C8. When the resolution returns, its alias set is the alias set left by the
  protection check, and every alias \<open>a\<close> in it is a key of the dictionary whose member
  disks are all in the returned disk set.
\<close>

theorem surviving_alias_members_in_final_disks:
  assumes "resolve device_groups protected_devices disks0 aliases0 verbose = Inr st"
    and "a \<in> set (aliases st)"
  shows "aliases st = aliases (protection_check verbose protected_devices
                         (expand_disks verbose device_groups disks0
                            \<lparr>disks = disks0, aliases = aliases0, out = []\<rparr>))
         \<and> (\<exists>ms. map_of device_groups a = Some ms \<and> set ms \<subseteq> set (disks st))"
proof -
  let ?st2 = "protection_check verbose protected_devices
                (expand_disks verbose device_groups disks0
                   \<lparr>disks = disks0, aliases = aliases0, out = []\<rparr>)"
  from assms(1) obtain ds' where m: "materialize device_groups (aliases ?st2) (disks ?st2) = Inr ds'"
    and st: "st = ?st2\<lparr>disks := ds'\<rparr>"
    by (auto simp: resolve_def Let_def split: sum.splits)
  from m have "\<exists>ds'. materialize device_groups (aliases ?st2) (disks ?st2) = Inr ds'" ..
  then have "set (aliases ?st2) \<subseteq> dom (map_of device_groups)"
    unfolding materialize_returns_iff .
  moreover from assms(2) have "a \<in> set (aliases ?st2)" by (simp add: st)
  ultimately have "a \<in> dom (map_of device_groups)" ..
  then obtain ms where ms: "map_of device_groups a = Some ms" by (auto simp: dom_def)
  have "set ms \<subseteq> set (disks st)"
  proof
    fix x assume "x \<in> set ms"
    with assms(2) ms show "x \<in> set (disks st)"
      unfolding resolve_Inr_disks [OF assms(1)] by blast
  qed
  with ms st show ?thesis by simp
qed

theorem surviving_alias_members_in_final_disks_witness:
  "resolve [(''testvol2'', [''sdg'', ''sdh''])] [] [] [''testvol2''] False
     = Inr \<lparr>disks = [''sdg'', ''sdh''], aliases = [''testvol2''], out = []\<rparr>
   \<and> ''testvol2'' \<in> set (aliases \<lparr>disks = [''sdg'', ''sdh''], aliases = [''testvol2''], out = []\<rparr>)
   \<and> (\<exists>ms. map_of [(''testvol2'', [''sdg'', ''sdh''])] ''testvol2'' = Some ms
          \<and> set ms \<subseteq> set (disks \<lparr>disks = [''sdg'', ''sdh''], aliases = [''testvol2''], out = []\<rparr>))"
proof -
  have r: "resolve [(''testvol2'', [''sdg'', ''sdh''])] [] [] [''testvol2''] False
     = Inr \<lparr>disks = [''sdg'', ''sdh''], aliases = [''testvol2''], out = []\<rparr>"
    by (simp add: resolve_def protection_check_def set_or_def set_add_def set_and_def
        set_sub_def say_def)
  have a: "''testvol2'' \<in> set (aliases \<lparr>disks = [''sdg'', ''sdh''], aliases = [''testvol2''], out = []\<rparr>)"
    by simp
  from surviving_alias_members_in_final_disks [OF r a] have
    "\<exists>ms. map_of [(''testvol2'', [''sdg'', ''sdh''])] ''testvol2'' = Some ms
          \<and> set ms \<subseteq> set (disks \<lparr>disks = [''sdg'', ''sdh''], aliases = [''testvol2''], out = []\<rparr>)"
    by (rule conjunct2)
  with r a show ?thesis by (intro conjI)
qed

text \<open>
  C9. The materialization loop subscripts the dictionary without a guard. The
  resolution returns exactly when every alias left by the protection check is a key of
  the dictionary, which is the case exactly when every requested alias that is not
  protected is a key (the aliases added by sibling expansion are keys). A requested
  alias that is neither protected nor a key makes it fail with \<^verbatim>\<open>KeyError\<close>.
\<close>

theorem resolve_returns_iff_surviving_aliases_known:
  "((\<exists>st. resolve device_groups protected_devices disks0 aliases0 verbose = Inr st)
      \<longleftrightarrow> set (aliases (protection_check verbose protected_devices
                  (expand_disks verbose device_groups disks0
                     \<lparr>disks = disks0, aliases = aliases0, out = []\<rparr>)))
            \<subseteq> dom (map_of device_groups))
   \<and> ((\<exists>st. resolve device_groups protected_devices disks0 aliases0 verbose = Inr st)
      \<longleftrightarrow> set aliases0 - set protected_devices \<subseteq> dom (map_of device_groups))
   \<and> (a \<in> set aliases0 \<and> a \<notin> set protected_devices \<and> map_of device_groups a = None \<longrightarrow>
        (\<exists>b. resolve device_groups protected_devices disks0 aliases0 verbose = Inl (KeyError b)
              \<and> b \<in> set aliases0 \<and> b \<notin> set protected_devices \<and> map_of device_groups b = None))"
proof (intro conjI impI)
  let ?st2 = "protection_check verbose protected_devices
                (expand_disks verbose device_groups disks0
                   \<lparr>disks = disks0, aliases = aliases0, out = []\<rparr>)"
  have "(\<exists>st. resolve device_groups protected_devices disks0 aliases0 verbose = Inr st)
          \<longleftrightarrow> (\<exists>ds'. materialize device_groups (aliases ?st2) (disks ?st2) = Inr ds')"
    by (auto simp: resolve_def Let_def split: sum.splits)
  then show "(\<exists>st. resolve device_groups protected_devices disks0 aliases0 verbose = Inr st)
          \<longleftrightarrow> set (aliases ?st2) \<subseteq> dom (map_of device_groups)"
    unfolding materialize_returns_iff .
  show "(\<exists>st. resolve device_groups protected_devices disks0 aliases0 verbose = Inr st)
      \<longleftrightarrow> set aliases0 - set protected_devices \<subseteq> dom (map_of device_groups)"
    by (rule resolve_returns_iff)
next
  assume a: "a \<in> set aliases0 \<and> a \<notin> set protected_devices \<and> map_of device_groups a = None"
  then have "\<not> set aliases0 - set protected_devices \<subseteq> dom (map_of device_groups)" by auto
  then have "\<not> (\<exists>st. resolve device_groups protected_devices disks0 aliases0 verbose = Inr st)"
    unfolding resolve_returns_iff .
  then obtain e where e: "resolve device_groups protected_devices disks0 aliases0 verbose = Inl e"
    by (cases "resolve device_groups protected_devices disks0 aliases0 verbose") auto
  from resolve_Inl [OF e] e
  show "\<exists>b. resolve device_groups protected_devices disks0 aliases0 verbose = Inl (KeyError b)
              \<and> b \<in> set aliases0 \<and> b \<notin> set protected_devices \<and> map_of device_groups b = None"
    by blast
qed

theorem resolve_returns_iff_surviving_aliases_known_witness:
  "''vol'' \<in> set [''vol''] \<and> ''vol'' \<notin> set [''sda'']
   \<and> map_of [(''testvol1'', [''sdb'', ''sdc''])] ''vol'' = None
   \<and> resolve [(''testvol1'', [''sdb'', ''sdc''])] [''sda''] [] [''vol''] False
       = Inl (KeyError ''vol'')"
  using resolve_returns_iff_surviving_aliases_known
    [of "[(''testvol1'', [''sdb'', ''sdc''])]" "[''sda'']" "[]" "[''vol'']" False "''vol''"]
  by (simp add: resolve_def protection_check_def set_or_def set_add_def set_and_def
      set_sub_def say_def)

section \<open>What the collector keeps in the dictionary\<close>

lemma keys_dict_add: "fst ` set (dict_add k x d) = fst ` set d"
  by (simp add: dict_add_def dom_map_entry)

lemma keys_dict_or: "fst ` set (dict_or k t d) = fst ` set d"
  by (simp add: dict_or_def dom_map_entry)

lemma map_of_dict_add:
  "map_of (dict_add k x d) k' = (if k' = k then map_option (set_add x) (map_of d k) else map_of d k')"
  by (simp add: dict_add_def map_of_map_entry split: option.splits)

lemma map_of_dict_or:
  "map_of (dict_or k t d) k' = (if k' = k then map_option (\<lambda>s. set_or s t) (map_of d k) else map_of d k')"
  by (simp add: dict_or_def map_of_map_entry split: option.splits)

lemma keys_add_paths: "fst ` set (add_paths device ls d) = fst ` set d"
  by (induction ls arbitrary: d) (auto simp: keys_dict_add split: option.splits)

lemma keys_collect_multipath:
  "collect_multipath h ls d = Inr d' \<Longrightarrow> fst ` set d' = fst ` set d \<union> strip ` set ls"
proof (induction ls arbitrary: d)
  case Nil
  then show ?case by simp
next
  case (Cons l ls)
  from Cons.prems obtain info where
    q: "query h (''multipath -ll '' @ strip l) = Inr info" and
    r: "collect_multipath h ls (add_paths (strip l) (splitlines info) (AList.update (strip l) [] d)) = Inr d'"
    by (auto split: sum.splits)
  from Cons.IH [OF r] show ?case
    by (simp add: keys_add_paths dom_update)
qed

lemma keys_protect_mounted: "fst ` set (protect_mounted ls d) = fst ` set d"
  by (induction ls arbitrary: d)
     (auto simp: keys_dict_add keys_dict_or Let_def split: option.splits)

lemma keys_protect_lvm: "fst ` set (protect_lvm ls d) = fst ` set d"
  by (induction ls arbitrary: d) (auto simp: keys_dict_add split: option.splits)

lemma keys_disk_associations:
  assumes "disk_associations h = Inr dm" and "query h ''multipath -l -v 1'' = Inr listing"
  shows "fst ` set dm = insert ''protected'' (strip ` set (splitlines listing))"
proof -
  from assms obtain d1 mounted lvm where
    c: "collect_multipath h (splitlines listing) [] = Inr d1" and
    dm: "dm = protect_lvm (splitlines lvm) (protect_mounted (splitlines mounted)
               (AList.update ''protected'' [] d1))"
    by (auto simp: disk_associations_def split: sum.splits)
  from keys_collect_multipath [OF c] show ?thesis
    by (simp add: dm keys_protect_lvm keys_protect_mounted dom_update)
qed


lemma protected_dict_add:
  "map_of d ''protected'' = Some p
     \<Longrightarrow> map_of (dict_add ''protected'' x d) ''protected'' = Some (set_add x p)"
  by (simp add: map_of_dict_add)

lemma protect_mounted_append:
  "protect_mounted (xs @ ys) d = protect_mounted ys (protect_mounted xs d)"
  by (induction xs arbitrary: d) (auto simp: Let_def split: option.splits)

lemma protect_lvm_append:
  "protect_lvm (xs @ ys) d = protect_lvm ys (protect_lvm xs d)"
  by (induction xs arbitrary: d) (auto split: option.splits)

lemma protect_mounted_other:
  "k \<noteq> ''protected'' \<Longrightarrow> map_of (protect_mounted ls d) k = map_of d k"
  by (induction ls arbitrary: d)
     (auto simp: Let_def map_of_dict_add map_of_dict_or split: option.splits)

lemma protect_lvm_other:
  "k \<noteq> ''protected'' \<Longrightarrow> map_of (protect_lvm ls d) k = map_of d k"
  by (induction ls arbitrary: d) (auto simp: map_of_dict_add split: option.splits)

lemma protect_mounted_line_disk:
  assumes "re_mounted (strip l) = Some (Some disk, x)" and "map_of d ''protected'' = Some p"
  shows "map_of (protect_mounted [l] d) ''protected'' = Some (set_add disk p)"
  using assms by (simp add: map_of_dict_add)

lemma protect_mounted_line_alias:
  assumes "re_mounted (strip l) = Some (None, Some a)" and "map_of d ''protected'' = Some p"
  shows "\<exists>q. map_of (protect_mounted [l] d) ''protected'' = Some q
           \<and> set q = insert a (set p) \<union> (case map_of d a of Some ms \<Rightarrow> set ms | None \<Rightarrow> {})"
proof (cases "a = ''protected''")
  case True
  with assms show ?thesis
    by (auto simp: Let_def map_of_dict_add map_of_dict_or set_set_or set_set_add)
next
  case False
  with assms show ?thesis
    by (cases "map_of d a")
       (auto simp: Let_def map_of_dict_add map_of_dict_or set_set_or set_set_add)
qed

lemma protect_mounted_line_mono:
  assumes "map_of d ''protected'' = Some p"
  shows "\<exists>q. map_of (protect_mounted [l] d) ''protected'' = Some q \<and> set p \<subseteq> set q"
proof (cases "re_mounted (strip l)")
  case None
  with assms show ?thesis by simp
next
  case (Some m)
  obtain dm am where m: "m = (dm, am)" by (cases m)
  show ?thesis
  proof (cases dm)
    case (Some disk)
    with \<open>re_mounted (strip l) = Some m\<close> m assms show ?thesis
      by (auto simp: map_of_dict_add set_set_add)
  next
    case None
    note dmNone = this
    show ?thesis
    proof (cases am)
      case None
      with \<open>re_mounted (strip l) = Some m\<close> m dmNone assms show ?thesis by simp
    next
      case (Some a)
      with \<open>re_mounted (strip l) = Some m\<close> m dmNone
      have "re_mounted (strip l) = Some (None, Some a)" by simp
      from protect_mounted_line_alias [OF this assms] show ?thesis by auto
    qed
  qed
qed

lemma protect_mounted_mono:
  "map_of d ''protected'' = Some p
     \<Longrightarrow> \<exists>q. map_of (protect_mounted ls d) ''protected'' = Some q \<and> set p \<subseteq> set q"
proof (induction ls arbitrary: d p)
  case Nil
  then show ?case by simp
next
  case (Cons l ls)
  from protect_mounted_line_mono [OF Cons.prems, of l] obtain q1 where
    q1: "map_of (protect_mounted [l] d) ''protected'' = Some q1" "set p \<subseteq> set q1" by blast
  from Cons.IH [OF q1(1)] obtain q where
    q: "map_of (protect_mounted ls (protect_mounted [l] d)) ''protected'' = Some q" "set q1 \<subseteq> set q"
    by blast
  have "protect_mounted (l # ls) d = protect_mounted ls (protect_mounted [l] d)"
    using protect_mounted_append [of "[l]" ls d] by simp
  with q q1(2) show ?case by auto
qed

lemma protect_lvm_mono:
  "map_of d ''protected'' = Some p
     \<Longrightarrow> \<exists>q. map_of (protect_lvm ls d) ''protected'' = Some q \<and> set p \<subseteq> set q"
proof (induction ls arbitrary: d p)
  case Nil
  then show ?case by simp
next
  case (Cons l ls)
  show ?case
  proof (cases "re_lvm (strip l)")
    case None
    with Cons show ?thesis by simp
  next
    case (Some x)
    from Cons.IH [OF protected_dict_add [OF Cons.prems, of x]] obtain q where
      "map_of (protect_lvm ls (dict_add ''protected'' x d)) ''protected'' = Some q"
      "set (set_add x p) \<subseteq> set q" by blast
    with Some show ?thesis by (auto simp: set_set_add)
  qed
qed

section \<open>What the regular expressions match\<close>

lemma digit_not_alpha: "isdigit c \<Longrightarrow> \<not> isalpha c"
  by (auto simp: isdigit_def isalpha_def)

lemma takeWhile_all: "\<forall>c\<in>set xs. P c \<Longrightarrow> takeWhile P xs = xs"
  by (induction xs) auto

lemma many1_all:
  "xs \<noteq> [] \<Longrightarrow> \<forall>c\<in>set xs. P c \<Longrightarrow> many1 P xs = Some (xs, [])"
  by (simp add: many1_def takeWhile_all dropWhile_eq_Nil_conv)

lemma many1_run:
  assumes "xs \<noteq> []" and "\<forall>c\<in>set xs. P c" and "\<forall>c\<in>set ys. \<not> P c"
  shows "many1 P (xs @ ys) = Some (xs, ys)"
proof -
  have t: "takeWhile P ys = []" using assms(3) by (cases ys) auto
  have d: "dropWhile P ys = ys" using assms(3) by (cases ys) auto
  from assms(1,2) show ?thesis
    by (simp add: many1_def takeWhile_append2 dropWhile_append2 t d)
qed

lemma re_mounted_mapper_word:
  assumes "a \<noteq> []" and "\<forall>c\<in>set a. isword c"
  shows "re_mounted (''/dev/mapper/'' @ a) = Some (None, Some a)"
  using assms by (simp add: re_mounted_def lit_def many1_all)

lemma not_mapper_prefix:
  assumes "\<not> prefix ''mapper'' base" and "\<forall>c\<in>set num. isdigit c"
  shows "\<not> prefix ''mapper'' (base @ num)"
proof
  assume "prefix ''mapper'' (base @ num)"
  with assms(1) obtain us where us: "''mapper'' = base @ us" "prefix us num"
    by (auto simp: prefix_append)
  with assms(1) have "us \<noteq> []" by auto
  then obtain u us' where u: "us = u # us'" by (cases us) auto
  with us(2) have "u \<in> set num" by (auto simp: prefix_def)
  with assms(2) have "isdigit u" by simp
  moreover from us(1) u have "u \<in> set ''mapper''"
    by (metis in_set_conv_decomp)
  ultimately show False by (auto simp: isdigit_def)
qed

lemma re_mounted_partition:
  assumes "base \<noteq> []" and "\<forall>c\<in>set base. isalpha c" and "\<not> prefix ''mapper'' base"
    and "\<forall>c\<in>set num. isdigit c"
  shows "re_mounted (''/dev/'' @ base @ num) = Some (Some base, None)"
proof -
  have "\<forall>c\<in>set num. \<not> isalpha c" using assms(4) digit_not_alpha by blast
  with assms(1,2) have m: "many1 isalpha (base @ num) = Some (base, num)"
    by (rule many1_run)
  from not_mapper_prefix [OF assms(3,4)] m show ?thesis
    by (simp add: re_mounted_def lit_def)
qed

lemma strip_numeric_suffix_partition:
  assumes "base \<noteq> []" and "\<forall>c\<in>set base. isalpha c" and "\<forall>c\<in>set num. isdigit c"
  shows "strip_numeric_suffix (base @ num) = base"
proof -
  from assms(1) obtain b bs where b: "rev base = b # bs" by (cases "rev base") auto
  then have "b \<in> set base" by (metis list.set_intros(1) set_rev)
  with assms(2) have "\<not> isdigit b" using digit_not_alpha by blast
  with b have d: "dropWhile isdigit (rev base) = rev base" by simp
  from assms(3) have "dropWhile isdigit (rev num @ rev base) = dropWhile isdigit (rev base)"
    by (intro dropWhile_append2) simp
  with d show ?thesis
    by (simp add: strip_numeric_suffix_def)
qed

section \<open>What the collector protects\<close>

lemma protect_mounted_cons:
  "protect_mounted (l # ls) d = protect_mounted ls (protect_mounted [l] d)"
  using protect_mounted_append [of "[l]" ls d] by simp

lemma protect_mounted_disk_in:
  assumes "l \<in> set ls" and "re_mounted (strip l) = Some (Some disk, x)"
    and "map_of d ''protected'' = Some p"
  shows "\<exists>q. map_of (protect_mounted ls d) ''protected'' = Some q \<and> disk \<in> set q"
proof -
  from assms(1) obtain xs ys where ls: "ls = xs @ l # ys" by (auto dest: split_list)
  from protect_mounted_mono [OF assms(3), of xs] obtain p1 where
    p1: "map_of (protect_mounted xs d) ''protected'' = Some p1" by blast
  from protect_mounted_line_disk [OF assms(2) p1]
  have p2: "map_of (protect_mounted [l] (protect_mounted xs d)) ''protected'' = Some (set_add disk p1)" .
  from protect_mounted_mono [OF p2, of ys] obtain q where
    q: "map_of (protect_mounted ys (protect_mounted [l] (protect_mounted xs d))) ''protected'' = Some q"
       "set (set_add disk p1) \<subseteq> set q" by blast
  have "protect_mounted ls d = protect_mounted ys (protect_mounted [l] (protect_mounted xs d))"
    by (simp only: ls protect_mounted_append protect_mounted_cons [of l ys])
  with q show ?thesis by (auto simp: set_set_add)
qed

lemma protect_mounted_alias_in:
  assumes "l \<in> set ls" and "re_mounted (strip l) = Some (None, Some a)"
    and "map_of d ''protected'' = Some p"
  shows "\<exists>q. map_of (protect_mounted ls d) ''protected'' = Some q \<and> a \<in> set q
           \<and> (\<forall>ms. map_of d a = Some ms \<longrightarrow> set ms \<subseteq> set q)"
proof -
  from assms(1) obtain xs ys where ls: "ls = xs @ l # ys" by (auto dest: split_list)
  let ?d1 = "protect_mounted xs d"
  from protect_mounted_mono [OF assms(3), of xs] obtain p1 where
    p1: "map_of ?d1 ''protected'' = Some p1" "set p \<subseteq> set p1" by blast
  from protect_mounted_line_alias [OF assms(2) p1(1)] obtain p2 where
    p2: "map_of (protect_mounted [l] ?d1) ''protected'' = Some p2"
        "set p2 = insert a (set p1) \<union> (case map_of ?d1 a of Some ms \<Rightarrow> set ms | None \<Rightarrow> {})"
    by blast
  from protect_mounted_mono [OF p2(1), of ys] obtain q where
    q: "map_of (protect_mounted ys (protect_mounted [l] ?d1)) ''protected'' = Some q"
       "set p2 \<subseteq> set q" by blast
  have eq: "protect_mounted ls d = protect_mounted ys (protect_mounted [l] ?d1)"
    by (simp only: ls protect_mounted_append protect_mounted_cons [of l ys])
  have mem: "\<forall>ms. map_of d a = Some ms \<longrightarrow> set ms \<subseteq> set p2"
  proof (cases "a = ''protected''")
    case True
    with assms(3) p1(2) p2(2) show ?thesis by auto
  next
    case False
    then have "map_of ?d1 a = map_of d a" by (rule protect_mounted_other)
    with p2(2) show ?thesis by auto
  qed
  from q p2(2) mem show ?thesis unfolding eq by blast
qed

lemma disk_associations_Inr:
  assumes "disk_associations h = Inr dm"
  obtains listing d1 mounted lvm where
    "query h ''multipath -l -v 1'' = Inr listing"
    "collect_multipath h (splitlines listing) [] = Inr d1"
    "query h ''findmnt --noheadings --list --type ext2,ext3,ext4,xfs --output SOURCE'' = Inr mounted"
    "query h ''pvs --noheadings --options pv_name'' = Inr lvm"
    "dm = protect_lvm (splitlines lvm) (protect_mounted (splitlines mounted)
            (AList.update ''protected'' [] d1))"
  using assms by (auto simp: disk_associations_def split: sum.splits)

lemma disk_associations_protected_Some:
  assumes "disk_associations h = Inr dm"
  shows "\<exists>q. map_of dm ''protected'' = Some q"
proof -
  from assms obtain listing d1 mounted lvm where
    dm: "dm = protect_lvm (splitlines lvm) (protect_mounted (splitlines mounted)
            (AList.update ''protected'' [] d1))"
    by (rule disk_associations_Inr)
  have "map_of (AList.update ''protected'' [] d1) ''protected'' = Some []"
    by (simp add: update_conv')
  from protect_mounted_mono [OF this] obtain q1 where
    "map_of (protect_mounted (splitlines mounted) (AList.update ''protected'' [] d1)) ''protected''
       = Some q1" by blast
  from protect_lvm_mono [OF this] show ?thesis unfolding dm by blast
qed

lemma mounted_disk_is_protected:
  assumes "disk_associations h = Inr dm"
    and "query h ''findmnt --noheadings --list --type ext2,ext3,ext4,xfs --output SOURCE'' = Inr mounted"
    and "device \<in> set (splitlines mounted)"
    and "re_mounted (strip device) = Some (Some disk, x)"
  shows "\<exists>q. map_of dm ''protected'' = Some q \<and> disk \<in> set q"
proof -
  from assms(1) obtain listing d1 mounted' lvm where
    m: "query h ''findmnt --noheadings --list --type ext2,ext3,ext4,xfs --output SOURCE'' = Inr mounted'" and
    dm: "dm = protect_lvm (splitlines lvm) (protect_mounted (splitlines mounted')
            (AList.update ''protected'' [] d1))"
    by (rule disk_associations_Inr)
  from m assms(2) have mm: "mounted' = mounted" by simp
  have "map_of (AList.update ''protected'' [] d1) ''protected'' = Some []"
    by (simp add: update_conv')
  from protect_mounted_disk_in [OF assms(3,4) this] obtain q1 where
    q1: "map_of (protect_mounted (splitlines mounted) (AList.update ''protected'' [] d1)) ''protected''
       = Some q1" "disk \<in> set q1" by blast
  from protect_lvm_mono [OF q1(1)] q1(2) show ?thesis unfolding dm mm by blast
qed

lemma mounted_word_alias_is_protected:
  assumes "disk_associations h = Inr dm"
    and "query h ''findmnt --noheadings --list --type ext2,ext3,ext4,xfs --output SOURCE'' = Inr mounted"
    and "device \<in> set (splitlines mounted)"
    and "strip device = ''/dev/mapper/'' @ a" and "a \<noteq> []" and "\<forall>c\<in>set a. isword c"
  shows "\<exists>q. map_of dm ''protected'' = Some q \<and> a \<in> set q
           \<and> (\<forall>ms. a \<noteq> ''protected'' \<and> map_of dm a = Some ms \<longrightarrow> set ms \<subseteq> set q)"
proof -
  from assms(1) obtain listing d1 mounted' lvm where
    m: "query h ''findmnt --noheadings --list --type ext2,ext3,ext4,xfs --output SOURCE'' = Inr mounted'" and
    dm: "dm = protect_lvm (splitlines lvm) (protect_mounted (splitlines mounted')
            (AList.update ''protected'' [] d1))"
    by (rule disk_associations_Inr)
  from m assms(2) have mm: "mounted' = mounted" by simp
  let ?d = "AList.update ''protected'' [] d1"
  have re: "re_mounted (strip device) = Some (None, Some a)"
    unfolding assms(4) using assms(5,6) by (rule re_mounted_mapper_word)
  have "map_of ?d ''protected'' = Some []" by (simp add: update_conv')
  from protect_mounted_alias_in [OF assms(3) re this] obtain q1 where
    q1: "map_of (protect_mounted (splitlines mounted) ?d) ''protected'' = Some q1" "a \<in> set q1"
        "\<forall>ms. map_of ?d a = Some ms \<longrightarrow> set ms \<subseteq> set q1" by blast
  from protect_lvm_mono [OF q1(1)] obtain q where
    q: "map_of dm ''protected'' = Some q" "set q1 \<subseteq> set q" unfolding dm mm by blast
  have "\<forall>ms. a \<noteq> ''protected'' \<and> map_of dm a = Some ms \<longrightarrow> set ms \<subseteq> set q"
  proof (intro allI impI)
    fix ms assume a: "a \<noteq> ''protected'' \<and> map_of dm a = Some ms"
    then have ne: "a \<noteq> ''protected''" ..
    have "map_of dm a = map_of ?d a"
      unfolding dm by (simp only: protect_lvm_other [OF ne] protect_mounted_other [OF ne])
    with a q1(3) q(2) show "set ms \<subseteq> set q" by auto
  qed
  with q q1(2) show ?thesis by blast
qed

section \<open>The example hosts\<close>

lemmas text_defs = re_multipath_def re_mounted_def re_lvm_def skip1_def many1_def one_def lit_def
  isspace_def isdigit_def isword_def isalpha_def strip_def splitlines_def query_def
  dict_add_def dict_or_def set_add_def set_or_def

lemma disk_associations_hyphen_host:
  "disk_associations hyphen_host
     = Inr [(''ora-data1'', [''sdg'', ''sdh'']), (''protected'', [''ora''])]"
  by (simp add: disk_associations_def hyphen_host_def text_defs)

lemma disk_associations_nvme_host:
  "disk_associations nvme_host = Inr [(''protected'', [''nvme''])]"
  by (simp add: disk_associations_def nvme_host_def text_defs)

lemma disk_associations_protected_alias_host:
  "disk_associations protected_alias_host = Inr [(''protected'', [])]"
  by (simp add: disk_associations_def protected_alias_host_def text_defs)

lemma disk_associations_sample_host:
  "disk_associations sample_host
     = Inr [(''testvol1'', [''sdc'', ''sdd'']),
            (''testvol2'', [''sdg'', ''sdi'', ''sdh'', ''sdj'']),
            (''protected'', [''vgROOT'', ''sda'', ''testvol2'', ''sdg'', ''sdi'', ''sdh'', ''sdj'',
                             ''sdb''])]"
  by (simp add: disk_associations_def sample_host_def text_defs)

section \<open>When the collector returns\<close>

lemma keys_delete: "fst ` set (AList.delete k al) = fst ` set al - {k}"
proof -
  have "set (map fst (AList.delete k al)) = set (map fst al) - {k}"
    by (simp only: delete_keys set_removeAll)
  then show ?thesis by simp
qed







section \<open>Mounted sources\<close>

text \<open>
  C4. The claim is that a mounted source \<^verbatim>\<open>/dev/mapper/<alias>\<close> puts the alias and,
  when the alias is a key of the dictionary, its member disks into the protected set.
  The pattern of line 89 reads the alias with \<^verbatim>\<open>\w+\<close>, which stops at the first
  character that is no letter, digit or underscore. On the host below the volume
  \<^verbatim>\<open>ora-data1\<close> with the paths \<^verbatim>\<open>sdg\<close> and \<^verbatim>\<open>sdh\<close> is mounted; the protected set
  is \<^verbatim>\<open>ora\<close> alone, and a request for the alias flushes the mounted volume and
  deletes both of its disks. Lemma \<open>mounted_word_alias_is_protected\<close> above is the
  claim for the aliases that the pattern reads in full.
\<close>

theorem hyphenated_mounted_alias_is_deleted:
  "disk_associations hyphen_host
     = Inr [(''ora-data1'', [''sdg'', ''sdh'']), (''protected'', [''ora''])]
   \<and> delete_devices hyphen_host willing_world [] [''ora-data1''] True False
     = ([Call ''multipath -f ora-data1'',
         Write ''/sys/block/sdg/device/state'' ''offline\<newline>'',
         Write ''/sys/block/sdg/device/delete'' ''1\<newline>'',
         Write ''/sys/block/sdh/device/state'' ''offline\<newline>'',
         Write ''/sys/block/sdh/device/delete'' ''1\<newline>''], None)"
  by (simp add: disk_associations_hyphen_host delete_devices_def willing_world_def execute_def
      protection_check_def set_or_def set_add_def set_and_def set_sub_def say_def Let_def)

text \<open>
  C5. A mounted source \<^verbatim>\<open>/dev/<letters><digits>\<close>, with at least one letter and one
  digit and letters that do not begin with \<^verbatim>\<open>mapper\<close>: the letters are the name with
  its numeric suffix stripped; the step of the loop for this source adds the letters
  to the protected set and nothing else, so not the partition name; and the protected
  set that \<^verbatim>\<open>disk_associations\<close> returns holds the letters.
\<close>

theorem partition_mount_protects_base_disk:
  assumes "base \<noteq> []" and "\<forall>c\<in>set base. isalpha c" and "\<not> prefix ''mapper'' base"
    and "num \<noteq> []" and "\<forall>c\<in>set num. isdigit c"
    and "strip device = ''/dev/'' @ base @ num"
  shows "strip_numeric_suffix (base @ num) = base \<and> base \<noteq> base @ num
     \<and> (map_of d ''protected'' = Some p \<longrightarrow>
          map_of (protect_mounted [device] d) ''protected'' = Some (set_add base p)
          \<and> set (set_add base p) = insert base (set p))
     \<and> (disk_associations h = Inr dm \<and> query h ''findmnt --noheadings --list --type ext2,ext3,ext4,xfs --output SOURCE'' = Inr mounted
          \<and> device \<in> set (splitlines mounted) \<longrightarrow>
          (\<exists>q. map_of dm ''protected'' = Some q \<and> base \<in> set q))"
proof -
  have re: "re_mounted (strip device) = Some (Some base, None)"
    unfolding assms(6) using assms(1,2,3,5) by (rule re_mounted_partition)
  have 1: "strip_numeric_suffix (base @ num) = base"
    using assms(1,2,5) by (rule strip_numeric_suffix_partition)
  have 2: "base \<noteq> base @ num" using assms(4) by simp
  have 3: "map_of d ''protected'' = Some p \<longrightarrow>
          map_of (protect_mounted [device] d) ''protected'' = Some (set_add base p)
          \<and> set (set_add base p) = insert base (set p)"
    using protect_mounted_line_disk [OF re] by (simp add: set_set_add)
  have 4: "disk_associations h = Inr dm \<and> query h ''findmnt --noheadings --list --type ext2,ext3,ext4,xfs --output SOURCE'' = Inr mounted
          \<and> device \<in> set (splitlines mounted) \<longrightarrow>
          (\<exists>q. map_of dm ''protected'' = Some q \<and> base \<in> set q)"
    using mounted_disk_is_protected [OF _ _ _ re] by blast
  from 1 2 3 4 show ?thesis by (intro conjI)
qed

text \<open>The source \<^verbatim>\<open>/dev/sda2\<close> of the sample host.\<close>

theorem partition_mount_protects_base_disk_witness:
  "strip_numeric_suffix ''sda2'' = ''sda''
   \<and> map_of (protect_mounted [''/dev/sda2''] [(''protected'', [])]) ''protected'' = Some [''sda'']
   \<and> ''/dev/sda2'' \<in> set (splitlines
         ''/dev/mapper/vgROOT-lvROOT\<newline>/dev/sda2\<newline>/dev/mapper/testvol2\<newline>'')
   \<and> (\<exists>dm q. disk_associations sample_host = Inr dm \<and> map_of dm ''protected'' = Some q
          \<and> ''sda'' \<in> set q)"
proof -
  have a: "''sda'' \<noteq> []" "\<forall>c\<in>set ''sda''. isalpha c" "\<not> prefix ''mapper'' ''sda''"
          "''2'' \<noteq> []" "\<forall>c\<in>set ''2''. isdigit c" "strip ''/dev/sda2'' = ''/dev/'' @ ''sda'' @ ''2''"
    by (simp_all add: isalpha_def isdigit_def strip_def isspace_def)
  have q: "query sample_host ''findmnt --noheadings --list --type ext2,ext3,ext4,xfs --output SOURCE''
             = Inr ''/dev/mapper/vgROOT-lvROOT\<newline>/dev/sda2\<newline>/dev/mapper/testvol2\<newline>''"
    by (simp add: query_def sample_host_def)
  have l: "''/dev/sda2'' \<in> set (splitlines
         ''/dev/mapper/vgROOT-lvROOT\<newline>/dev/sda2\<newline>/dev/mapper/testvol2\<newline>'')"
    by (simp add: splitlines_def)
  have p: "map_of [(''protected'', [])] ''protected'' = Some []" by simp
  note t = partition_mount_protects_base_disk [OF a, of "[(''protected'', [])]" "[]" sample_host
      _ "''/dev/mapper/vgROOT-lvROOT\<newline>/dev/sda2\<newline>/dev/mapper/testvol2\<newline>''"]
  from t have 1: "strip_numeric_suffix ''sda2'' = ''sda''" by simp
  from t p have 2: "map_of (protect_mounted [''/dev/sda2''] [(''protected'', [])]) ''protected''
      = Some [''sda'']" by (simp add: set_add_def)
  from t disk_associations_sample_host q l
  have 3: "\<exists>dm q. disk_associations sample_host = Inr dm \<and> map_of dm ''protected'' = Some q
          \<and> ''sda'' \<in> set q" by blast
  from 1 2 l 3 show ?thesis by (intro conjI)
qed

text \<open>
  The claim is stated for every bare device path that ends in a partition number. The
  pattern \<^verbatim>\<open>[a-zA-Z]+\d*\<close> reads the leading letters only: for the partition
  \<^verbatim>\<open>/dev/nvme0n1p2\<close> the protected set holds \<^verbatim>\<open>nvme\<close>, which is neither the name
  with its numeric suffix stripped nor the disk \<^verbatim>\<open>nvme0n1\<close>.
\<close>

theorem nvme_partition_mount_protects_no_disk:
  "strip ''/dev/nvme0n1p2'' = ''/dev/'' @ ''nvme0n1p2''
   \<and> strip_numeric_suffix ''nvme0n1p2'' = ''nvme0n1p''
   \<and> disk_associations nvme_host = Inr [(''protected'', [''nvme''])]
   \<and> ''nvme0n1p'' \<notin> set [''nvme'']"
  by (simp add: disk_associations_nvme_host strip_def isspace_def strip_numeric_suffix_def
      isdigit_def)

section \<open>Queries that fail\<close>




section \<open>The reserved key\<close>

text \<open>
  C10. The protected set is kept in the dictionary under the key \<^verbatim>\<open>protected\<close>. When
  the listing of \<^verbatim>\<open>multipath -l -v 1\<close> names an alias \<^verbatim>\<open>protected\<close>, the first phase
  stores that alias's paths under the key, line 71 replaces them by the empty set, and
  after \<^verbatim>\<open>pop('protected')\<close> the dictionary that the resolution phase reads has the
  listed aliases but this one as its keys: they are not the aliases that multipath
  knows.
\<close>

theorem alias_named_protected_is_lost:
  assumes "query h ''multipath -l -v 1'' = Inr listing"
    and "collect_multipath h (splitlines listing) [] = Inr d1"
    and "''protected'' \<in> strip ` set (splitlines listing)"
    and "disk_associations h = Inr dm"
  shows "(\<exists>paths. map_of d1 ''protected'' = Some paths)
     \<and> map_of (AList.update ''protected'' [] d1) ''protected'' = Some []
     \<and> fst ` set (AList.delete ''protected'' dm) = strip ` set (splitlines listing) - {''protected''}
     \<and> fst ` set (AList.delete ''protected'' dm) \<noteq> strip ` set (splitlines listing)
     \<and> map_of (AList.delete ''protected'' dm) ''protected'' = None"
proof -
  from keys_collect_multipath [OF assms(2)] assms(3)
  have "''protected'' \<in> fst ` set d1" by simp
  then have "''protected'' \<in> dom (map_of d1)" by (simp add: dom_map_of_conv_image_fst)
  then have 1: "\<exists>paths. map_of d1 ''protected'' = Some paths" by (auto simp: dom_def)
  have 2: "map_of (AList.update ''protected'' [] d1) ''protected'' = Some []"
    by (simp add: update_conv')
  from keys_disk_associations [OF assms(4,1)]
  have 3: "fst ` set (AList.delete ''protected'' dm)
             = strip ` set (splitlines listing) - {''protected''}"
    by (simp add: keys_delete)
  from 3 assms(3) have 4: "fst ` set (AList.delete ''protected'' dm) \<noteq> strip ` set (splitlines listing)"
    by blast
  have 5: "map_of (AList.delete ''protected'' dm) ''protected'' = None"
    by (simp add: delete_conv')
  from 1 2 3 4 5 show ?thesis by (intro conjI)
qed

text \<open>The volume \<^verbatim>\<open>protected\<close> with the paths \<^verbatim>\<open>sdg\<close> and \<^verbatim>\<open>sdh\<close>: no group is left.\<close>

theorem alias_named_protected_is_lost_witness:
  "collect_multipath protected_alias_host (splitlines ''protected\<newline>'') []
     = Inr [(''protected'', [''sdg'', ''sdh''])]
   \<and> disk_associations protected_alias_host = Inr [(''protected'', [])]
   \<and> fst ` set (AList.delete ''protected'' [(''protected'', []::pyset)])
       \<noteq> strip ` set (splitlines ''protected\<newline>'')
   \<and> AList.delete ''protected'' [(''protected'', []::pyset)] = []"
proof -
  have q: "query protected_alias_host ''multipath -l -v 1'' = Inr ''protected\<newline>''"
    by (simp add: query_def protected_alias_host_def)
  have c: "collect_multipath protected_alias_host (splitlines ''protected\<newline>'') []
     = Inr [(''protected'', [''sdg'', ''sdh''])]"
    by (simp add: protected_alias_host_def text_defs)
  have m: "''protected'' \<in> strip ` set (splitlines ''protected\<newline>'')"
    by (simp add: splitlines_def strip_def isspace_def)
  note t = alias_named_protected_is_lost [OF q c m disk_associations_protected_alias_host]
  from t have ne: "fst ` set (AList.delete ''protected'' [(''protected'', []::pyset)])
       \<noteq> strip ` set (splitlines ''protected\<newline>'')"
    by (elim conjE)
  have del: "AList.delete ''protected'' [(''protected'', []::pyset)] = []" by simp
  from c disk_associations_protected_alias_host ne del show ?thesis by (intro conjI)
qed

section \<open>What the executor does\<close>






section \<open>The dictionary and the whole function\<close>

text \<open>
  The association list that \<^const>\<open>disk_associations\<close> returns has each key once, as the
  dictionary of the script has.
\<close>

lemma distinct_dict_add: "distinct (map fst d) \<Longrightarrow> distinct (map fst (dict_add k x d))"
  by (simp add: dict_add_def distinct_map_entry)

lemma distinct_dict_or: "distinct (map fst d) \<Longrightarrow> distinct (map fst (dict_or k t d))"
  by (simp add: dict_or_def distinct_map_entry)

lemma distinct_add_paths:
  "distinct (map fst d) \<Longrightarrow> distinct (map fst (add_paths device ls d))"
  by (induction ls arbitrary: d) (auto simp: distinct_dict_add split: option.splits)

lemma distinct_collect_multipath:
  "collect_multipath h ls d = Inr d' \<Longrightarrow> distinct (map fst d) \<Longrightarrow> distinct (map fst d')"
proof (induction ls arbitrary: d)
  case Nil
  then show ?case by simp
next
  case (Cons l ls)
  from Cons.prems(1) obtain info where
    r: "collect_multipath h ls (add_paths (strip l) (splitlines info) (AList.update (strip l) [] d)) = Inr d'"
    by (auto split: sum.splits)
  from Cons.prems(2) have "distinct (map fst (add_paths (strip l) (splitlines info)
      (AList.update (strip l) [] d)))"
    by (intro distinct_add_paths distinct_update)
  from Cons.IH [OF r this] show ?case .
qed

lemma distinct_protect_mounted:
  "distinct (map fst d) \<Longrightarrow> distinct (map fst (protect_mounted ls d))"
  by (induction ls arbitrary: d)
     (auto simp: Let_def distinct_dict_add distinct_dict_or split: option.splits)

lemma distinct_protect_lvm:
  "distinct (map fst d) \<Longrightarrow> distinct (map fst (protect_lvm ls d))"
  by (induction ls arbitrary: d) (auto simp: distinct_dict_add split: option.splits)

lemma distinct_disk_associations:
  assumes "disk_associations h = Inr dm"
  shows "distinct (map fst dm)"
proof -
  from assms obtain listing d1 mounted lvm where
    c: "collect_multipath h (splitlines listing) [] = Inr d1" and
    dm: "dm = protect_lvm (splitlines lvm) (protect_mounted (splitlines mounted)
            (AList.update ''protected'' [] d1))"
    by (rule disk_associations_Inr)
  from distinct_collect_multipath [OF c] have "distinct (map fst d1)" by simp
  then show ?thesis unfolding dm
    by (intro distinct_protect_lvm distinct_protect_mounted distinct_update)
qed

text \<open>
  With \<^verbatim>\<open>assume_yes\<close>, \<^const>\<open>delete_devices\<close> is the collector, the resolution phase on
  the dictionary without its key \<^verbatim>\<open>protected\<close>, and the executor.
\<close>

lemma delete_devices_assume_yes:
  assumes "disk_associations h = Inr dg0" and "map_of dg0 ''protected'' = Some p"
  shows "delete_devices h w ds as True v =
     (case resolve (AList.delete ''protected'' dg0) p ds as v of
        Inl e \<Rightarrow>
          (map Print (out (protection_check v p
             (expand_disks v (AList.delete ''protected'' dg0) ds
                \<lparr>disks = ds, aliases = as, out = []\<rparr>))), Some e)
      | Inr st \<Rightarrow> execute w v (aliases st) (disks st) (map Print (out st)))"
  using assms by (simp add: delete_devices_def resolve_def Let_def split: sum.splits)

text \<open>
  \<^verbatim>\<open>main\<close> accepts an alias argument that occurs in the output of
  \<^verbatim>\<open>multipath -l -v 1\<close> as a substring. On the sample host it accepts \<^verbatim>\<open>vol\<close>, which
  is no key of the dictionary, and \<^verbatim>\<open>delete_devices\<close> ends with \<^verbatim>\<open>KeyError\<close>.
\<close>

lemma main_accepts_substring_alias:
  "occurs_in ''vol'' ''testvol1\<newline>testvol2\<newline>''
   \<and> delete_devices sample_host willing_world [] [''vol''] True False
     = ([], Some (KeyError ''vol''))"
proof -
  let ?p = "[''vgROOT'', ''sda'', ''testvol2'', ''sdg'', ''sdi'', ''sdh'', ''sdj'', ''sdb'']"
  let ?dg = "[(''testvol1'', [''sdc'', ''sdd'']), (''testvol2'', [''sdg'', ''sdi'', ''sdh'', ''sdj''])]"
  let ?dm = "?dg @ [(''protected'', ?p)]"
  have o: "occurs_in ''vol'' ''testvol1\<newline>testvol2\<newline>''" by simp
  have da: "disk_associations sample_host = Inr ?dm"
    using disk_associations_sample_host by simp
  have p: "map_of ?dm ''protected'' = Some ?p" by simp
  have d: "AList.delete ''protected'' ?dm = ?dg" by simp
  have pc: "protection_check False ?p \<lparr>disks = [], aliases = [''vol''], out = []\<rparr>
              = \<lparr>disks = [], aliases = [''vol''], out = []\<rparr>"
    by (simp add: protection_check_def set_or_def set_add_def set_and_def)
  have r: "resolve ?dg ?p [] [''vol''] False = Inl (KeyError ''vol'')"
    by (simp add: resolve_def pc)
  have "delete_devices sample_host willing_world [] [''vol''] True False
     = ([], Some (KeyError ''vol''))"
    unfolding delete_devices_assume_yes [OF da p] d r by (simp add: pc)
  with o show ?thesis ..
qed

end
